theory Spec2Isabelle
  imports Main "HOL-Library.Sublist"
begin

section \<open>The MR Procedure map: routes, leg times, ETA table and selection state\<close>

text \<open>
  A shallow embedding of \<^verbatim>\<open>mr_procedure.js\<close>. The source keeps its configuration in two
  constants (\<^verbatim>\<open>routes\<close>, \<^verbatim>\<open>timeMatrix\<close>) and its state in four global variables plus the
  class lists of the hotspot elements of the page. Functions that read a global take it as
  an argument here, so that the general statements hold for every catalog and every
  matrix; the configured constants are defined below as the source has them.

  Numbers: every number the program computes with is a count of minutes, an index or a
  counter. They are modelled as exact integers (\<open>nat\<close> for minutes, \<open>int\<close> for indices,
  where the source compares with \<open>-1\<close> and \<open>0\<close>), which is what JavaScript numbers are on
  integers below \<open>2 ^ 53\<close>.

  Ids are strings. The source tests ids for truth (\<^verbatim>\<open>!from\<close>, \<^verbatim>\<open>if(activePointId)\<close>,
  \<^verbatim>\<open>startPointSelect.value || "VOCC"\<close>): an empty string stands for no id, and those tests
  are written out below as comparisons with the empty string.
\<close>

subsection \<open>Data: routes and checkpoints\<close>

record checkpoint =
  pt_id :: string
  title :: string
  objective :: string
  bullets :: "string list"

record route =
  route_id :: string
  name :: string
  color :: string
  points :: "checkpoint list"

text \<open>The arrow of the bullet texts (U+2192), as its three UTF-8 bytes.\<close>

definition arrow :: string where
  "arrow = [CHR 0xE2, CHR 0x86, CHR 0x92]"

definition mkPoint :: "string \<Rightarrow> string \<Rightarrow> string \<Rightarrow> string \<Rightarrow> string \<Rightarrow> checkpoint" where
  "mkPoint i obj b1 b2 nxt =
     \<lparr>pt_id = i, title = ''Checkpoint '' @ i, objective = obj,
      bullets = [b1, b2, ''Next point '' @ arrow @ '' '' @ nxt]\<rparr>"

definition routeA :: route where
  "routeA = \<lparr>route_id = ''routeA'', name = ''Route Alpha'', color = ''#06b6d4'', points =
     [mkPoint ''P'' ''Initial departure and perimeter securing.''
        ''Conduct radar and visual sweep.'' ''Verify course alignment.'' ''Q'',
      mkPoint ''Q'' ''Observation and tower verification.''
        ''Take tower bearing and distance.'' ''Report position fix.'' ''R'',
      mkPoint ''R'' ''Resupply and comms verification.''
        ''Reconfirm comms window.'' ''Verify resupply readiness.'' ''S'',
      mkPoint ''S'' ''Traffic corridor clearance.''
        ''Coordinate safe passage.'' ''Log traffic movement.'' ''T'',
      mkPoint ''T'' ''High-point timing and mast observation.''
        ''Take timing references.'' ''Confirm mast signals.'' ''U'',
      mkPoint ''U'' ''Outer perimeter scan.''
        ''Record sector sweep.'' ''Validate safe-distance limits.'' ''S/P'',
      mkPoint ''S/P'' ''Final holding & route termination.''
        ''Confirm return readiness.'' ''Record sortie completion.'' ''END'']\<rparr>"

definition routeB :: route where
  "routeB = \<lparr>route_id = ''routeB'', name = ''Route Bravo'', color = ''#7c3aed'', points =
     [mkPoint ''S/P'' ''Start point for Bravo route.''
        ''Verify initial briefing.'' ''Log starting timestamp.'' ''P'',
      mkPoint ''P'' ''Rendezvous alignment.''
        ''Confirm joining instructions.'' ''Match timing with Alpha unit if applicable.'' ''R'',
      mkPoint ''R'' ''Communications and logistics check.''
        ''Validate resupply corridor.'' ''Check generator/aux systems.'' ''U'',
      mkPoint ''U'' ''Outer ring observation.''
        ''Perform perimeter sweep.'' ''Log environmental conditions.'' ''T'',
      mkPoint ''T'' ''High tower monitor checkpoint.''
        ''Record timing references.'' ''Monitor mast signatures.'' ''S'',
      mkPoint ''S'' ''Traffic corridor coordination.''
        ''Clear corridor for movement.'' ''Coordinate with control tower.'' ''Q'',
      mkPoint ''Q'' ''Final verification before termination.''
        ''Fix final position.'' ''Log sortie closure.'' ''END'']\<rparr>"

definition routes :: "route list" where
  "routes = [routeA, routeB]"

subsection \<open>Data: the time matrix\<close>

text \<open>
  \<^verbatim>\<open>timeMatrix\<close> is an object of objects of numbers. It is a map from ids to rows, a row
  being a map from ids to minutes: \<open>tm a = None\<close> when the matrix has no own property
  \<open>a\<close>, and \<open>row b = None\<close> when the row has no numeric own property \<open>b\<close>. Ids are
  taken not to name a property that every JavaScript object inherits.
\<close>

type_synonym row = "string \<rightharpoonup> nat"
type_synonym matrix = "string \<rightharpoonup> row"

definition timeMatrix :: matrix where
  "timeMatrix = map_of
     [(''VOCC'', map_of [(''Q'', 14), (''P'', 12), (''S/P'', 20)]),
      (''P'', map_of [(''Q'', 14), (''R'', 9)]),
      (''Q'', map_of [(''R'', 12), (''S/P'', 10)]),
      (''R'', map_of [(''S'', 11), (''U'', 13)]),
      (''S'', map_of [(''T'', 9)]),
      (''T'', map_of [(''U'', 15)]),
      (''U'', map_of [(''S/P'', 8)]),
      (''S/P'', map_of [])]"

text \<open>A matrix whose two directions between \<^verbatim>\<open>A\<close> and \<^verbatim>\<open>B\<close> disagree.\<close>

definition asymMatrix :: matrix where
  "asymMatrix = map_of [(''A'', map_of [(''B'', 5)]), (''B'', map_of [(''A'', 7)])]"

subsection \<open>Strings and numbers of the host language\<close>

text \<open>
  \<open>String_js\<close> is \<^verbatim>\<open>String(n)\<close> on a non-negative integer: its decimal digits.
  \<open>padStart\<close> is \<^verbatim>\<open>s.padStart(n, c)\<close> for a one-character filler. \<open>split_js\<close> is
  \<^verbatim>\<open>s.split(sep)\<close> for a one-character separator: it always returns at least one part.
\<close>

definition digitChar :: "nat \<Rightarrow> char" where
  "digitChar d = ''0123456789'' ! (d mod 10)"

fun String_js :: "nat \<Rightarrow> string" where
  "String_js n =
     (if n < 10 then [digitChar n] else String_js (n div 10) @ [digitChar (n mod 10)])"

declare String_js.simps [simp del]

definition padStart :: "nat \<Rightarrow> char \<Rightarrow> string \<Rightarrow> string" where
  "padStart n c s = replicate (n - length s) c @ s"

fun split_js :: "char \<Rightarrow> string \<Rightarrow> string list" where
  "split_js sep [] = [[]]"
| "split_js sep (c # cs) =
     (if c = sep then [] # split_js sep cs
      else (case split_js sep cs of
              [] \<Rightarrow> [[c]]
            | p # ps \<Rightarrow> (c # p) # ps))"

text \<open>
  \<open>Number_js\<close> is \<^verbatim>\<open>Number(s)\<close> on a string, with \<open>None\<close> for \<^verbatim>\<open>NaN\<close>. It is exact on
  the empty string (\<open>0\<close>), on a string of decimal digits (its value) and on a string that
  is no numeric literal at all, such as \<^verbatim>\<open>"abc"\<close> (\<^verbatim>\<open>NaN\<close>). The other numeric literals
  of JavaScript (signed, fractional, with an exponent, with a radix prefix, padded with
  blanks) are not modelled: the definition answers \<^verbatim>\<open>NaN\<close> for them too, and no statement
  below depends on its answer there.
  \<open>numOrZero\<close> is the source's \<^verbatim>\<open>(Number(x) || 0)\<close>, \<open>x\<close> being \<open>None\<close> when the
  destructuring found no such part (\<^verbatim>\<open>undefined\<close>).
\<close>

definition isDigit :: "char \<Rightarrow> bool" where
  "isDigit c = (48 \<le> (of_char c :: nat) \<and> (of_char c :: nat) \<le> 57)"

definition digitVal :: "char \<Rightarrow> nat" where
  "digitVal c = of_char c - 48"

definition decimalValue :: "string \<Rightarrow> nat" where
  "decimalValue s = foldl (\<lambda>acc c. acc * 10 + digitVal c) 0 s"

definition Number_js :: "string \<Rightarrow> nat option" where
  "Number_js s = (if list_all isDigit s then Some (decimalValue s) else None)"

definition numOrZero :: "string option \<Rightarrow> nat" where
  "numOrZero x =
     (case x of
        None \<Rightarrow> 0
      | Some s \<Rightarrow> (case Number_js s of None \<Rightarrow> 0 | Some n \<Rightarrow> n))"

text \<open>Array reads: \<^verbatim>\<open>xs[i]\<close> is \<^verbatim>\<open>undefined\<close> out of range, \<open>None\<close> here.\<close>

definition at_js :: "'a list \<Rightarrow> int \<Rightarrow> 'a option" where
  "at_js xs i = (if 0 \<le> i \<and> i < int (length xs) then Some (xs ! nat i) else None)"

text \<open>\<^verbatim>\<open>xs.findIndex(P)\<close> and \<^verbatim>\<open>xs.indexOf(x)\<close>: the first position, or \<open>-1\<close>.\<close>

fun findIndex :: "('a \<Rightarrow> bool) \<Rightarrow> 'a list \<Rightarrow> int" where
  "findIndex P [] = -1"
| "findIndex P (x # xs) =
     (if P x then 0 else (let r = findIndex P xs in if r = -1 then -1 else r + 1))"

definition indexOf :: "'a list \<Rightarrow> 'a \<Rightarrow> int" where
  "indexOf xs x = findIndex (\<lambda>y. y = x) xs"

subsection \<open>Helpers of the source\<close>

definition minutesToHHMM :: "nat \<Rightarrow> string" where
  "minutesToHHMM totalMinutes =
     (let H = totalMinutes div 60;
          M = totalMinutes mod 60
      in padStart 2 (CHR ''0'') (String_js H) @ '':'' @ padStart 2 (CHR ''0'') (String_js M))"

text \<open>
  \<^verbatim>\<open>(minutes / 60).toFixed(2)\<close>: the quotient rounded to the nearest hundredth. The
  hundredths of \<open>n / 60\<close> are \<open>5 * n / 3\<close>, whose fractional part is \<open>0\<close>, \<open>1/3\<close> or
  \<open>2/3\<close>, never a tie, so the nearest hundredth is \<open>(10 * n + 3) div 6\<close>.
\<close>

definition formatHoursFromMinutes :: "nat \<Rightarrow> string" where
  "formatHoursFromMinutes minutes =
     (let hundredths = (10 * minutes + 3) div 6
      in String_js (hundredths div 100) @ ''.'' @
         padStart 2 (CHR ''0'') (String_js (hundredths mod 100)))"

subsection \<open>Leg times\<close>

text \<open>
  \<open>entry tm a b\<close> is the number \<^verbatim>\<open>timeMatrix[a][b]\<close> when \<^verbatim>\<open>timeMatrix[a]\<close> exists and
  that property is a number. \<open>getLegTime\<close> first returns \<open>0\<close> when either id is falsy,
  which for a string means empty.
\<close>

definition entry :: "matrix \<Rightarrow> string \<Rightarrow> string \<Rightarrow> nat option" where
  "entry tm a b = (case tm a of None \<Rightarrow> None | Some r \<Rightarrow> r b)"

definition getLegTime :: "matrix \<Rightarrow> string \<Rightarrow> string \<Rightarrow> nat" where
  "getLegTime tm frm to =
     (if frm = [] \<or> to = [] then 0
      else (case entry tm frm to of
              Some m \<Rightarrow> m
            | None \<Rightarrow> (case entry tm to frm of Some m \<Rightarrow> m | None \<Rightarrow> 0)))"

subsection \<open>The traversal sequence\<close>

text \<open>
  The two copying loops \<^verbatim>\<open>for (i = idx; i < routePts.length; i++) seq.push(routePts[i])\<close>
  are \<open>pushFrom\<close>; the scanning loop for an origin outside the route is \<open>scanFrom\<close>,
  which returns \<open>None\<close> when it runs off the end without returning.
\<close>

function pushFrom :: "string list \<Rightarrow> nat \<Rightarrow> string list \<Rightarrow> string list" where
  "pushFrom routePts i seq =
     (if i < length routePts then pushFrom routePts (i + 1) (seq @ [routePts ! i]) else seq)"
  by pat_completeness auto
termination
  by (relation "measure (\<lambda>(routePts, i, seq). length routePts - i)") auto

declare pushFrom.simps [simp del]

function scanFrom :: "matrix \<Rightarrow> string \<Rightarrow> string list \<Rightarrow> nat \<Rightarrow> string list option" where
  "scanFrom tm startPoint routePts i =
     (if i < length routePts then
        (if getLegTime tm startPoint (routePts ! i) > 0 then Some (pushFrom routePts i [])
         else scanFrom tm startPoint routePts (i + 1))
      else None)"
  by pat_completeness auto
termination
  by (relation "measure (\<lambda>(tm, startPoint, routePts, i). length routePts - i)") auto

declare scanFrom.simps [simp del]

definition buildTraversalSequence :: "matrix \<Rightarrow> route \<Rightarrow> string \<Rightarrow> string list" where
  "buildTraversalSequence tm currentRoute startPoint =
     (let routePts = map pt_id (points currentRoute);
          idx = indexOf routePts startPoint
      in if idx \<noteq> -1 then pushFrom routePts (nat idx) []
         else (case scanFrom tm startPoint routePts 0 of
                 Some seq \<Rightarrow> seq
               | None \<Rightarrow> routePts))"

subsection \<open>The ETA table\<close>

record leg =
  legIndex :: nat
  leg_from :: string
  leg_to :: string
  legTimeMin :: nat
  legTimeHrs :: string
  eta :: string

text \<open>
  The result is the array \<^verbatim>\<open>rows\<close> with two properties attached at the end. The two
  early returns give the bare empty array: its \<^verbatim>\<open>totalMinutes\<close> and \<^verbatim>\<open>finalEta\<close> are
  \<^verbatim>\<open>undefined\<close>, \<open>None\<close> here.
\<close>

record eta_table =
  rows :: "leg list"
  totalMinutes :: "nat option"
  finalEta :: "string option"

definition noRows :: eta_table where
  "noRows = \<lparr>rows = [], totalMinutes = None, finalEta = None\<rparr>"

definition mkLeg :: "nat \<Rightarrow> string \<Rightarrow> string \<Rightarrow> nat \<Rightarrow> nat \<Rightarrow> leg" where
  "mkLeg legCounter frm to legTime currentMinutes =
     \<lparr>legIndex = legCounter, leg_from = frm, leg_to = to, legTimeMin = legTime,
      legTimeHrs = formatHoursFromMinutes legTime, eta = minutesToHHMM currentMinutes\<rparr>"

text \<open>
  The loop over adjacent pairs. Its variables are the index, \<^verbatim>\<open>legCounter\<close>,
  \<^verbatim>\<open>currentMinutes\<close>, \<^verbatim>\<open>totalMinutesAccum\<close> and \<^verbatim>\<open>rows\<close>; it returns the last two. The
  source's test \<^verbatim>\<open>i < routeSeq.length - 1\<close> is \<open>i + 1 < length routeSeq\<close> on naturals.
\<close>

function legLoop ::
  "matrix \<Rightarrow> string list \<Rightarrow> nat \<Rightarrow> nat \<Rightarrow> nat \<Rightarrow> nat \<Rightarrow> leg list \<Rightarrow> nat \<times> leg list" where
  "legLoop tm routeSeq i legCounter currentMinutes totalMinutesAccum rws =
     (if i + 1 < length routeSeq then
        (let frm = routeSeq ! i;
             to = routeSeq ! (i + 1);
             legTime = getLegTime tm frm to
         in legLoop tm routeSeq (i + 1) (legCounter + 1) (currentMinutes + legTime)
              (totalMinutesAccum + legTime)
              (rws @ [mkLeg (legCounter + 1) frm to legTime (currentMinutes + legTime)]))
      else (totalMinutesAccum, rws))"
  by pat_completeness auto
termination
  by (relation "measure (\<lambda>(tm, routeSeq, i, rest). length routeSeq - i)") auto

declare legLoop.simps [simp del]

text \<open>The start minutes the source computes from the start string (lines 354 and 355).\<close>

definition startMinutesOf :: "string \<Rightarrow> nat" where
  "startMinutesOf str =
     (let parts = split_js (CHR '':'') str;
          hStr = at_js parts 0;
          mStr = at_js parts 1
      in numOrZero hStr * 60 + numOrZero mStr)"

text \<open>
  \<open>startTimeStr\<close> is \<open>None\<close> for a missing argument (\<^verbatim>\<open>undefined\<close>, \<^verbatim>\<open>null\<close>); the test
  \<^verbatim>\<open>!startTimeStr\<close> also holds of the empty string.
\<close>

definition calculateETAs :: "matrix \<Rightarrow> route \<Rightarrow> string option \<Rightarrow> string \<Rightarrow> eta_table" where
  "calculateETAs tm currentRoute startTimeStr startPoint =
     (case startTimeStr of
        None \<Rightarrow> noRows
      | Some str \<Rightarrow>
          if str = [] then noRows
          else
            (let startMinutes = startMinutesOf str;
                 traversal = buildTraversalSequence tm currentRoute startPoint
             in case traversal of
                  [] \<Rightarrow> noRows
                | toPoint # _ \<Rightarrow>
                    (let (legCounter, currentMinutes, totalMinutesAccum, rws) =
                           (if startPoint \<noteq> toPoint then
                              (let legTime = getLegTime tm startPoint toPoint
                               in (1, startMinutes + legTime, legTime,
                                   [mkLeg 1 startPoint toPoint legTime (startMinutes + legTime)]))
                            else (0, startMinutes, 0, []));
                         (total, rws') =
                           legLoop tm traversal 0 legCounter currentMinutes totalMinutesAccum rws
                     in \<lparr>rows = rws',
                         totalMinutes = Some total,
                         finalEta = Some (if rws' \<noteq> [] then eta (last rws')
                                          else minutesToHHMM startMinutes)\<rparr>)))"

subsection \<open>Selection state\<close>

text \<open>
  The state is the four globals \<^verbatim>\<open>currentRoute\<close>, \<^verbatim>\<open>currentPointIndex\<close>,
  \<^verbatim>\<open>activePointId\<close>, \<^verbatim>\<open>pointsVisible\<close>, and the hotspot elements of the page with the
  two classes the script adds and removes (\<^verbatim>\<open>selected\<close>, \<^verbatim>\<open>dim\<close>). The page itself is
  not part of the script: its hotspot list is a parameter. Inline styles (dot colour,
  opacity, z-index), the panel texts and the button attributes are only ever written by
  the script, never read, and are left out.
\<close>

record hotspot =
  hid :: string
  selected :: bool
  dim :: bool

record state =
  currentRoute :: route
  currentPointIndex :: int
  activePointId :: "string option"
  pointsVisible :: bool
  hotspots :: "hotspot list"

text \<open>\<^verbatim>\<open>getHotspotById\<close>: the position of the first hotspot carrying that id.\<close>

definition getHotspotById :: "hotspot list \<Rightarrow> string \<Rightarrow> nat option" where
  "getHotspotById hs i =
     (let k = findIndex (\<lambda>h. hid h = i) hs in if k = -1 then None else Some (nat k))"

definition unhighlightAll :: "state \<Rightarrow> state" where
  "unhighlightAll s =
     s\<lparr>hotspots := map (\<lambda>h. h\<lparr>selected := False, dim := False\<rparr>) (hotspots s),
       activePointId := None\<rparr>"

text \<open>
  \<^verbatim>\<open>if(activePointId)\<close> is false of \<^verbatim>\<open>null\<close> and of the empty string: only a non-empty
  previous id has its hotspot unmarked.
\<close>

definition highlightPoint :: "string \<Rightarrow> state \<Rightarrow> state" where
  "highlightPoint i s =
     (if activePointId s = Some i then s
      else
        (let hs = hotspots s;
             hs1 = (case activePointId s of
                      None \<Rightarrow> hs
                    | Some a \<Rightarrow>
                        if a = [] then hs
                        else (case getHotspotById hs a of
                                None \<Rightarrow> hs
                              | Some k \<Rightarrow> hs[k := (hs ! k)\<lparr>selected := False\<rparr>]));
             hs2 = map (\<lambda>h. h\<lparr>dim := False\<rparr>) hs1;
             hs3 = (case getHotspotById hs2 i of
                      None \<Rightarrow> hs2
                    | Some t \<Rightarrow>
                        (map (\<lambda>h. h\<lparr>dim := True\<rparr>) hs2)[t := (hs2 ! t)\<lparr>selected := True\<rparr>])
         in s\<lparr>hotspots := hs3, activePointId := Some i\<rparr>))"

definition setPointsVisibility :: "bool \<Rightarrow> state \<Rightarrow> state" where
  "setPointsVisibility visible s = s\<lparr>pointsVisible := visible\<rparr>"

definition renderPanel :: "state \<Rightarrow> state" where
  "renderPanel s =
     (case at_js (points (currentRoute s)) (currentPointIndex s) of
        None \<Rightarrow> s
      | Some p \<Rightarrow>
          (let s' = highlightPoint (pt_id p) s
           in setPointsVisibility (pointsVisible s') s'))"

text \<open>
  \<^verbatim>\<open>routes.find(...) || routes[0]\<close> is \<^verbatim>\<open>undefined\<close> on an empty catalog, and reading its
  \<^verbatim>\<open>points\<close> throws a TypeError: \<open>showRoute\<close> returns \<open>None\<close> then, and so does every
  handler that calls it.
\<close>

definition showRoute :: "route list \<Rightarrow> string \<Rightarrow> state \<Rightarrow> state option" where
  "showRoute rts routeId s =
     (case (case find (\<lambda>r. route_id r = routeId) rts of
              Some r \<Rightarrow> Some r
            | None \<Rightarrow> at_js rts 0) of
        None \<Rightarrow> None
      | Some r \<Rightarrow>
          (let s1 = s\<lparr>currentRoute := r\<rparr>
           in if points r \<noteq> [] then
                Some (renderPanel
                  (if currentPointIndex s1 \<ge> int (length (points r))
                   then s1\<lparr>currentPointIndex := 0\<rparr> else s1))
              else Some (unhighlightAll s1)))"

definition resetAll :: "route list \<Rightarrow> state \<Rightarrow> state option" where
  "resetAll rts s =
     (let s1 = unhighlightAll s;
          s2 = s1\<lparr>pointsVisible := True\<rparr>;
          s3 = setPointsVisibility True s2
      in showRoute rts (route_id (currentRoute s3)) s3)"

subsection \<open>Event handlers\<close>

text \<open>
  A click is a click on a hotspot, \<open>pid\<close> being its \<^verbatim>\<open>data-id\<close> (a click elsewhere returns at
  once and is no event here). The keys bound to a hotspot repeat two of the events: Enter
  and Space click it, Escape calls \<open>resetAll\<close>.

  The loop \<^verbatim>\<open>for (const r of routes)\<close> of the click handler: it returns the index found
  (\<open>-1\<close> when no route holds the id) and the state after the route switch.
\<close>

fun searchRoutes :: "route list \<Rightarrow> route list \<Rightarrow> string \<Rightarrow> state \<Rightarrow> (int \<times> state) option" where
  "searchRoutes rts [] pid s = Some (-1, s)"
| "searchRoutes rts (r # rest) pid s =
     (let f = findIndex (\<lambda>pt. pt_id pt = pid) (points r)
      in if f \<noteq> -1 then
           (case showRoute rts (route_id r) (s\<lparr>currentRoute := r\<rparr>) of
              None \<Rightarrow> None
            | Some s' \<Rightarrow> Some (f, s'))
         else searchRoutes rts rest pid s)"

definition hotspot_click :: "route list \<Rightarrow> string \<Rightarrow> state \<Rightarrow> state option" where
  "hotspot_click rts pid s =
     (let idx = findIndex (\<lambda>pt. pt_id pt = pid) (points (currentRoute s))
      in case (if idx = -1 then searchRoutes rts rts pid s else Some (idx, s)) of
           None \<Rightarrow> None
         | Some (idx', s') \<Rightarrow>
             if idx' = -1 then Some (highlightPoint pid s')
             else Some (renderPanel (s'\<lparr>currentPointIndex := idx'\<rparr>)))"

definition prevBtn_click :: "state \<Rightarrow> state" where
  "prevBtn_click s =
     (if currentPointIndex s > 0
      then renderPanel (s\<lparr>currentPointIndex := currentPointIndex s - 1\<rparr>) else s)"

definition nextBtn_click :: "state \<Rightarrow> state" where
  "nextBtn_click s =
     (if currentPointIndex s < int (length (points (currentRoute s))) - 1
      then renderPanel (s\<lparr>currentPointIndex := currentPointIndex s + 1\<rparr>) else s)"

definition btnTogglePoints_click :: "state \<Rightarrow> state" where
  "btnTogglePoints_click s = setPointsVisibility (\<not> pointsVisible s) s"

definition routeSelect_change :: "route list \<Rightarrow> string \<Rightarrow> state \<Rightarrow> state option" where
  "routeSelect_change rts v s = showRoute rts v s"

text \<open>
  Start-up: the globals as declared, then \<^verbatim>\<open>init\<close>. \<open>hs\<close> is the hotspot list of the
  page as loaded.
\<close>

definition init :: "route list \<Rightarrow> hotspot list \<Rightarrow> state option" where
  "init rts hs =
     (case rts of
        [] \<Rightarrow> None
      | r # _ \<Rightarrow>
          map_option (setPointsVisibility True)
            (showRoute rts (route_id r)
               \<lparr>currentRoute = r, currentPointIndex = 0, activePointId = None,
                pointsVisible = True, hotspots = hs\<rparr>))"

datatype event =
  RouteChanged string
| PointClicked string
| Next
| Prev
| ToggleVisibility
| Reset

fun step :: "route list \<Rightarrow> event \<Rightarrow> state \<Rightarrow> state option" where
  "step rts (RouteChanged v) s = routeSelect_change rts v s"
| "step rts (PointClicked pid) s = hotspot_click rts pid s"
| "step rts Next s = Some (nextBtn_click s)"
| "step rts Prev s = Some (prevBtn_click s)"
| "step rts ToggleVisibility s = Some (btnTogglePoints_click s)"
| "step rts Reset s = resetAll rts s"

fun run :: "route list \<Rightarrow> event list \<Rightarrow> state \<Rightarrow> state option" where
  "run rts [] s = Some s"
| "run rts (e # es) s = (case step rts e s of None \<Rightarrow> None | Some s' \<Rightarrow> run rts es s')"

text \<open>
  The page is well formed when its hotspots carry distinct, non-empty ids. A state is
  exclusive when every hotspot marked \<^verbatim>\<open>selected\<close> is the hotspot of \<^verbatim>\<open>activePointId\<close>.
\<close>

definition wellFormedPage :: "hotspot list \<Rightarrow> bool" where
  "wellFormedPage hs = (distinct (map hid hs) \<and> [] \<notin> set (map hid hs))"

definition exclusive :: "state \<Rightarrow> bool" where
  "exclusive s = (\<forall>h \<in> set (hotspots s). selected h \<longrightarrow> activePointId s = Some (hid h))"

definition pageInv :: "state \<Rightarrow> bool" where
  "pageInv s = (wellFormedPage (hotspots s) \<and> exclusive s)"

text \<open>A route with no points, as \<^verbatim>\<open>showRoute\<close> provides for.\<close>

definition routeNoPoints :: route where
  "routeNoPoints =
     \<lparr>route_id = ''routeC'', name = ''Route Charlie'', color = ''#f59e0b'', points = []\<rparr>"

text \<open>A clock string of the form \<^verbatim>\<open>HH:MM\<close>: two digits, a colon, two digits below 60.\<close>

definition isHHMM :: "string \<Rightarrow> bool" where
  "isHHMM str =
     (case str of
        [h1, h2, c, m1, m2] \<Rightarrow>
          isDigit h1 \<and> isDigit h2 \<and> c = CHR '':'' \<and> isDigit m1 \<and> isDigit m2 \<and>
          decimalValue [h1, h2] < 24 \<and> decimalValue [m1, m2] < 60
      | _ \<Rightarrow> False)"

text \<open>
  A page with one unmarked hotspot for each checkpoint id of the catalog, and the state
  reached on it from start-up by a click on \<^verbatim>\<open>S\<close> and a click on the visibility button.
\<close>

definition samplePage :: "hotspot list" where
  "samplePage =
     map (\<lambda>i. \<lparr>hid = i, selected = False, dim = False\<rparr>)
       [''P'', ''Q'', ''R'', ''S'', ''T'', ''U'', ''S/P'']"

definition stateAtS :: state where
  "stateAtS =
     \<lparr>currentRoute = routeA, currentPointIndex = 3, activePointId = Some ''S'',
      pointsVisible = False,
      hotspots =
        [\<lparr>hid = ''P'', selected = False, dim = True\<rparr>,
         \<lparr>hid = ''Q'', selected = False, dim = True\<rparr>,
         \<lparr>hid = ''R'', selected = False, dim = True\<rparr>,
         \<lparr>hid = ''S'', selected = True, dim = False\<rparr>,
         \<lparr>hid = ''T'', selected = False, dim = True\<rparr>,
         \<lparr>hid = ''U'', selected = False, dim = True\<rparr>,
         \<lparr>hid = ''S/P'', selected = False, dim = True\<rparr>]\<rparr>"

section \<open>Properties\<close>

subsection \<open>Digits, decimal strings and the clock format\<close>

lemma lt10_cases:
  assumes "(d::nat) < 10"
  shows "d = 0 \<or> d = 1 \<or> d = 2 \<or> d = 3 \<or> d = 4 \<or> d = 5 \<or> d = 6 \<or> d = 7 \<or> d = 8 \<or> d = 9"
  using assms by arith

lemma digitChar_lt10:
  assumes "d < 10"
  shows "digitVal (digitChar d) = d \<and> isDigit (digitChar d)"
  using lt10_cases [OF assms]
  by (elim disjE) (simp_all add: digitVal_def digitChar_def isDigit_def)

lemma digitChar_isDigit: "isDigit (digitChar d)"
proof -
  have "digitChar d = digitChar (d mod 10)" by (simp add: digitChar_def)
  moreover have "isDigit (digitChar (d mod 10))" using digitChar_lt10 [of "d mod 10"] by simp
  ultimately show ?thesis by simp
qed

lemma digitVal_digitChar: "d < 10 \<Longrightarrow> digitVal (digitChar d) = d"
  using digitChar_lt10 by blast

lemma isDigit_not_colon: "isDigit c \<Longrightarrow> c \<noteq> CHR '':''"
  by (auto simp: isDigit_def)

lemma digitChar_digitVal:
  assumes h: "isDigit c"
  shows "digitChar (digitVal c) = c"
proof -
  from h have lt: "digitVal c < 10" unfolding isDigit_def digitVal_def by arith
  from digitChar_lt10 [OF lt] have "digitVal (digitChar (digitVal c)) = digitVal c"
    and "isDigit (digitChar (digitVal c))" by simp_all
  with h have "(of_char (digitChar (digitVal c)) :: nat) = of_char c"
    unfolding isDigit_def digitVal_def by arith
  then show ?thesis by simp
qed

lemma String_js_digits: "list_all isDigit (String_js n)"
proof (induction n rule: String_js.induct)
  case (1 n)
  then show ?case
    by (subst String_js.simps) (simp add: digitChar_isDigit)
qed

lemma decimalValue_snoc: "decimalValue (s @ [c]) = decimalValue s * 10 + digitVal c"
  by (simp add: decimalValue_def)

lemma decimalValue_String_js: "decimalValue (String_js n) = n"
proof (induction n rule: String_js.induct)
  case (1 n)
  show ?case
  proof (cases "n < 10")
    case True
    then show ?thesis
      by (subst String_js.simps) (simp add: decimalValue_def digitVal_digitChar)
  next
    case False
    with 1 have "decimalValue (String_js (n div 10)) = n div 10" by simp
    with False show ?thesis
      by (subst String_js.simps) (simp add: decimalValue_snoc digitVal_digitChar)
  qed
qed

lemma decimalValue_zeros: "decimalValue (replicate k (CHR ''0'') @ s) = decimalValue s"
proof -
  have "foldl (\<lambda>acc c. acc * 10 + digitVal c) 0 (replicate k (CHR ''0'')) = 0"
    by (induction k) (simp_all add: digitVal_def)
  then show ?thesis by (simp add: decimalValue_def)
qed

lemma split_js_no_sep: "sep \<notin> set s \<Longrightarrow> split_js sep s = [s]"
  by (induction s) auto

lemma split_js_append: "sep \<notin> set s \<Longrightarrow> split_js sep (s @ sep # t) = s # split_js sep t"
  by (induction s) auto

lemma padded_digits: "list_all isDigit (padStart 2 (CHR ''0'') (String_js n))"
  using String_js_digits [of n] by (auto simp: padStart_def list_all_iff isDigit_def)

lemma digits_no_colon: "list_all isDigit s \<Longrightarrow> CHR '':'' \<notin> set s"
  by (auto simp: list_all_iff isDigit_def)

lemma Number_js_padded: "Number_js (padStart 2 (CHR ''0'') (String_js n)) = Some n"
  using padded_digits [of n]
  by (simp add: Number_js_def) (simp add: padStart_def decimalValue_zeros decimalValue_String_js)

lemma split_minutesToHHMM:
  "split_js (CHR '':'') (minutesToHHMM n) =
     [padStart 2 (CHR ''0'') (String_js (n div 60)), padStart 2 (CHR ''0'') (String_js (n mod 60))]"
  unfolding minutesToHHMM_def Let_def
  using digits_no_colon [OF padded_digits [of "n div 60"]] digits_no_colon [OF padded_digits [of "n mod 60"]]
  by (simp add: split_js_append split_js_no_sep)


lemma minutesToHHMM_readback:
  "map Number_js (split_js (CHR '':'') (minutesToHHMM n)) = [Some (n div 60), Some (n mod 60)]"
  by (simp add: split_minutesToHHMM Number_js_padded)

lemma minutesToHHMM_inj: "minutesToHHMM a = minutesToHHMM b \<Longrightarrow> a = b"
proof -
  assume "minutesToHHMM a = minutesToHHMM b"
  then have "map Number_js (split_js (CHR '':'') (minutesToHHMM a)) =
             map Number_js (split_js (CHR '':'') (minutesToHHMM b))" by simp
  then have "a div 60 = b div 60" and "a mod 60 = b mod 60"
    by (simp_all add: minutesToHHMM_readback)
  then show "a = b" by (metis div_mult_mod_eq)
qed

text \<open>
  Claim C7. Clock conversion: \<open>0\<close> minutes is \<^verbatim>\<open>00:00\<close>, \<open>90\<close> minutes is \<^verbatim>\<open>01:30\<close>,
  \<open>1440\<close> minutes is \<^verbatim>\<open>24:00\<close>. For every \<open>n\<close> the result is \<open>n div 60\<close> padded with
  zeros to two digits, a colon, and \<open>n mod 60\<close> padded to two digits; read back with the
  source's own \<^verbatim>\<open>split\<close> and \<^verbatim>\<open>Number\<close> it gives those two numbers. From \<open>1440\<close> minutes on,
  the hour component exceeds \<open>23\<close> and the string is not the one of the time a day
  earlier: there is no wraparound.
\<close>

theorem minutesToHHMM_clock:
  "minutesToHHMM 0 = ''00:00'' \<and> minutesToHHMM 90 = ''01:30'' \<and> minutesToHHMM 1440 = ''24:00'' \<and>
   (\<forall>n. minutesToHHMM n =
          padStart 2 (CHR ''0'') (String_js (n div 60)) @ '':'' @
          padStart 2 (CHR ''0'') (String_js (n mod 60))) \<and>
   (\<forall>n. map Number_js (split_js (CHR '':'') (minutesToHHMM n)) =
          [Some (n div 60), Some (n mod 60)]) \<and>
   (\<forall>n\<ge>1440. (\<exists>h>23. Number_js (hd (split_js (CHR '':'') (minutesToHHMM n))) = Some h) \<and>
               minutesToHHMM n \<noteq> minutesToHHMM (n - 1440))"
proof -
  have c0: "minutesToHHMM 0 = ''00:00''"
    by (simp add: minutesToHHMM_def padStart_def String_js.simps digitChar_def)
  have c90: "minutesToHHMM 90 = ''01:30''"
    by (simp add: minutesToHHMM_def padStart_def String_js.simps digitChar_def)
  have c1440: "minutesToHHMM 1440 = ''24:00''"
    by (simp add: minutesToHHMM_def padStart_def String_js.simps digitChar_def)
  have form: "\<forall>n. minutesToHHMM n =
          padStart 2 (CHR ''0'') (String_js (n div 60)) @ '':'' @
          padStart 2 (CHR ''0'') (String_js (n mod 60))"
    by (simp add: minutesToHHMM_def)
  have readback: "\<forall>n. map Number_js (split_js (CHR '':'') (minutesToHHMM n)) =
          [Some (n div 60), Some (n mod 60)]"
    by (simp add: minutesToHHMM_readback)
  have big: "\<forall>n\<ge>1440. (\<exists>h>23. Number_js (hd (split_js (CHR '':'') (minutesToHHMM n))) = Some h) \<and>
               minutesToHHMM n \<noteq> minutesToHHMM (n - 1440)"
  proof (intro allI impI conjI)
    fix n :: nat
    assume n: "1440 \<le> n"
    have "Number_js (hd (split_js (CHR '':'') (minutesToHHMM n))) = Some (n div 60)"
      by (simp add: split_minutesToHHMM Number_js_padded)
    moreover from n have "23 < n div 60" by simp
    ultimately show "\<exists>h>23. Number_js (hd (split_js (CHR '':'') (minutesToHHMM n))) = Some h"
      by blast
    from n have "n \<noteq> n - 1440" by simp
    then show "minutesToHHMM n \<noteq> minutesToHHMM (n - 1440)"
      using minutesToHHMM_inj by blast
  qed
  from c0 c90 c1440 form readback big show ?thesis by blast
qed

text \<open>The instance \<open>n = 1500\<close> of claim C7, whose string is \<^verbatim>\<open>25:00\<close>.\<close>

theorem minutesToHHMM_clock_witness:
  "(1440::nat) \<le> 1500 \<and>
   (\<exists>h>23. Number_js (hd (split_js (CHR '':'') (minutesToHHMM 1500))) = Some h) \<and>
   minutesToHHMM 1500 \<noteq> minutesToHHMM (1500 - 1440)"
proof -
  have h: "(1440::nat) \<le> 1500" by simp
  from minutesToHHMM_clock
  have "\<forall>n\<ge>1440. (\<exists>h>23. Number_js (hd (split_js (CHR '':'') (minutesToHHMM n))) = Some h) \<and>
               minutesToHHMM n \<noteq> minutesToHHMM (n - 1440)"
    by (elim conjE)
  from this [rule_format, OF h] h show ?thesis by (intro conjI) (elim conjE, assumption)+
qed

subsection \<open>Leg times\<close>

lemma timeMatrix_no_empty_from: "entry timeMatrix [] b = None"
  by (simp add: entry_def timeMatrix_def)

lemma timeMatrix_no_empty_to: "entry timeMatrix a [] = None"
  by (simp add: entry_def timeMatrix_def)

text \<open>
  Claim C4. Checkpoint ids are non-empty strings: the source treats an empty (or missing)
  id as no id and answers \<open>0\<close> before it looks at the matrix. For every matrix and every pair of
  ids, \<open>getLegTime\<close> returns the directed entry when there is one, whatever the reverse
  entry is; otherwise the reverse entry when there is one, so that both directions agree
  whenever exactly one is defined; otherwise \<open>0\<close>, also for a pair \<open>(a, a)\<close> with no entry.
  With the configured matrix, which has no entry under an empty id, this description holds
  of every pair of strings.
\<close>

theorem getLegTime_directed_then_reverse:
  "(frm \<noteq> [] \<and> to \<noteq> [] \<longrightarrow>
      (\<forall>m. entry tm frm to = Some m \<longrightarrow> getLegTime tm frm to = m) \<and>
      (\<forall>m. entry tm frm to = None \<and> entry tm to frm = Some m \<longrightarrow> getLegTime tm frm to = m)) \<and>
   ((entry tm frm to = None) \<noteq> (entry tm to frm = None) \<longrightarrow>
      getLegTime tm frm to = getLegTime tm to frm) \<and>
   (entry tm frm to = None \<and> entry tm to frm = None \<longrightarrow> getLegTime tm frm to = 0) \<and>
   (entry tm frm frm = None \<longrightarrow> getLegTime tm frm frm = 0) \<and>
   (frm = [] \<or> to = [] \<longrightarrow> getLegTime tm frm to = 0) \<and>
   getLegTime timeMatrix frm to =
     (case entry timeMatrix frm to of
        Some m \<Rightarrow> m
      | None \<Rightarrow> (case entry timeMatrix to frm of Some m \<Rightarrow> m | None \<Rightarrow> 0))"
proof (intro conjI)
  show "frm \<noteq> [] \<and> to \<noteq> [] \<longrightarrow>
      (\<forall>m. entry tm frm to = Some m \<longrightarrow> getLegTime tm frm to = m) \<and>
      (\<forall>m. entry tm frm to = None \<and> entry tm to frm = Some m \<longrightarrow> getLegTime tm frm to = m)"
    by (simp add: getLegTime_def)
  show "(entry tm frm to = None) \<noteq> (entry tm to frm = None) \<longrightarrow>
      getLegTime tm frm to = getLegTime tm to frm"
    by (auto simp: getLegTime_def split: option.splits)
  show "entry tm frm to = None \<and> entry tm to frm = None \<longrightarrow> getLegTime tm frm to = 0"
    by (simp add: getLegTime_def)
  show "entry tm frm frm = None \<longrightarrow> getLegTime tm frm frm = 0"
    by (simp add: getLegTime_def)
  show "frm = [] \<or> to = [] \<longrightarrow> getLegTime tm frm to = 0"
    by (simp add: getLegTime_def)
  show "getLegTime timeMatrix frm to =
     (case entry timeMatrix frm to of
        Some m \<Rightarrow> m
      | None \<Rightarrow> (case entry timeMatrix to frm of Some m \<Rightarrow> m | None \<Rightarrow> 0))"
  proof (cases "frm = [] \<or> to = []")
    case True
    then have "entry timeMatrix frm to = None" and "entry timeMatrix to frm = None"
      using timeMatrix_no_empty_from timeMatrix_no_empty_to by auto
    with True show ?thesis by (simp add: getLegTime_def)
  next
    case False
    then show ?thesis by (simp add: getLegTime_def)
  qed
qed

subsection \<open>The traversal sequence\<close>

lemma pushFrom_eq: "pushFrom routePts i seq = seq @ drop i routePts"
proof (induction routePts i seq rule: pushFrom.induct)
  case (1 routePts i seq)
  show ?case
  proof (cases "i < length routePts")
    case True
    with 1 have "pushFrom routePts (i + 1) (seq @ [routePts ! i]) = (seq @ [routePts ! i]) @ drop (i + 1) routePts"
      by simp
    with True show ?thesis
      by (subst pushFrom.simps) (simp add: Cons_nth_drop_Suc)
  next
    case False
    then show ?thesis by (subst pushFrom.simps) simp
  qed
qed

lemma findIndex_ge: "-1 \<le> findIndex P xs"
  by (induction xs) (auto simp: Let_def)

lemma findIndex_none: "(findIndex P xs = -1) = (\<forall>x \<in> set xs. \<not> P x)"
proof (induction xs)
  case Nil
  then show ?case by simp
next
  case (Cons x xs)
  have "findIndex P xs + 1 \<noteq> -1" using findIndex_ge [of P xs] by arith
  with Cons show ?case by (auto simp: Let_def)
qed

lemma findIndex_lt: "findIndex P xs < int (length xs)"
  by (induction xs) (auto simp: Let_def)

lemma findIndex_drop:
  "\<exists>x \<in> set xs. P x \<Longrightarrow> drop (nat (findIndex P xs)) xs = dropWhile (\<lambda>x. \<not> P x) xs"
proof (induction xs)
  case Nil
  then show ?case by simp
next
  case (Cons x xs)
  show ?case
  proof (cases "P x")
    case True
    then show ?thesis by simp
  next
    case False
    with Cons.prems have ex: "\<exists>x \<in> set xs. P x" by simp
    then have ne: "findIndex P xs \<noteq> -1" by (simp add: findIndex_none)
    with findIndex_ge [of P xs] have "0 \<le> findIndex P xs" by arith
    then have "nat (findIndex P xs + 1) = Suc (nat (findIndex P xs))" by simp
    with False ne Cons.IH [OF ex] show ?thesis by (simp add: Let_def)
  qed
qed

lemma findIndex_nth:
  "\<exists>x \<in> set xs. P x \<Longrightarrow> 0 \<le> findIndex P xs \<and> P (xs ! nat (findIndex P xs))"
proof (induction xs)
  case Nil
  then show ?case by simp
next
  case (Cons x xs)
  show ?case
  proof (cases "P x")
    case True
    then show ?thesis by simp
  next
    case False
    with Cons.prems have ex: "\<exists>x \<in> set xs. P x" by simp
    then have ne: "findIndex P xs \<noteq> -1" by (simp add: findIndex_none)
    from Cons.IH [OF ex] have ih: "0 \<le> findIndex P xs" "P (xs ! nat (findIndex P xs))" by simp_all
    then have "nat (findIndex P xs + 1) = Suc (nat (findIndex P xs))" by simp
    with False ne ih show ?thesis by (simp add: Let_def)
  qed
qed

lemma scanFrom_eq:
  "scanFrom tm sp pts i =
     (if \<exists>p \<in> set (drop i pts). 0 < getLegTime tm sp p
      then Some (dropWhile (\<lambda>p. \<not> 0 < getLegTime tm sp p) (drop i pts)) else None)"
proof (induction tm sp pts i rule: scanFrom.induct)
  case (1 tm sp pts i)
  show ?case
  proof (cases "i < length pts")
    case False
    then show ?thesis by (subst scanFrom.simps) simp
  next
    case True
    then have d: "drop i pts = pts ! i # drop (Suc i) pts" by (simp add: Cons_nth_drop_Suc)
    show ?thesis
    proof (cases "0 < getLegTime tm sp (pts ! i)")
      case pos: True
      with True d show ?thesis
        by (subst scanFrom.simps) (simp add: pushFrom_eq)
    next
      case npos: False
      with 1 True have "scanFrom tm sp pts (i + 1) =
        (if \<exists>p \<in> set (drop (i + 1) pts). 0 < getLegTime tm sp p
         then Some (dropWhile (\<lambda>p. \<not> 0 < getLegTime tm sp p) (drop (i + 1) pts)) else None)"
        by simp
      with True npos d show ?thesis
        by (subst scanFrom.simps) simp
    qed
  qed
qed

lemma buildTraversalSequence_eq:
  "buildTraversalSequence tm r origin =
     (let pts = map pt_id (points r) in
      if origin \<in> set pts then dropWhile (\<lambda>p. p \<noteq> origin) pts
      else if \<exists>p \<in> set pts. 0 < getLegTime tm origin p
           then dropWhile (\<lambda>p. \<not> 0 < getLegTime tm origin p) pts
           else pts)"
proof -
  define pts where "pts = map pt_id (points r)"
  show ?thesis
  proof (cases "origin \<in> set pts")
    case True
    then have ex: "\<exists>x \<in> set pts. x = origin" by simp
    then have "indexOf pts origin \<noteq> -1" by (simp add: indexOf_def findIndex_none)
    moreover have "drop (nat (indexOf pts origin)) pts = dropWhile (\<lambda>p. p \<noteq> origin) pts"
      unfolding indexOf_def using findIndex_drop [OF ex] by simp
    ultimately show ?thesis using True
      by (simp add: buildTraversalSequence_def Let_def pushFrom_eq pts_def [symmetric])
  next
    case False
    then have "indexOf pts origin = -1" by (auto simp: indexOf_def findIndex_none)
    with False show ?thesis
      by (simp add: buildTraversalSequence_def Let_def scanFrom_eq pts_def [symmetric])
  qed
qed

lemma dropWhile_nonempty: "\<exists>x \<in> set xs. \<not> P x \<Longrightarrow> dropWhile P xs \<noteq> []"
  by (induction xs) auto

lemma buildTraversalSequence_suffix_of_route:
  "suffix (buildTraversalSequence tm r origin) (map pt_id (points r))"
  by (simp add: buildTraversalSequence_eq Let_def suffix_dropWhile)

lemma buildTraversalSequence_nonempty:
  "points r \<noteq> [] \<Longrightarrow> buildTraversalSequence tm r origin \<noteq> []"
  by (auto simp: buildTraversalSequence_eq Let_def dropWhile_eq_Nil_conv)

text \<open>
  Claim C3. For every route with at least one point and every origin: the traversal
  sequence is the route from the origin on when the origin is a point of the route; else
  the route from the first point with a positive leg time from the origin on; else the
  whole route. It is a suffix of the route, so it keeps the route's order and visits no
  position twice; it is not empty; and it has no repeated id when the route has none (an id
  is unique within a route).
\<close>

theorem buildTraversalSequence_resolve:
  assumes "points r \<noteq> []"
  shows "buildTraversalSequence tm r origin =
           (if origin \<in> set (map pt_id (points r))
            then dropWhile (\<lambda>p. p \<noteq> origin) (map pt_id (points r))
            else if \<exists>p \<in> set (map pt_id (points r)). 0 < getLegTime tm origin p
                 then dropWhile (\<lambda>p. \<not> 0 < getLegTime tm origin p) (map pt_id (points r))
                 else map pt_id (points r)) \<and>
         (origin \<in> set (map pt_id (points r)) \<longrightarrow>
            hd (buildTraversalSequence tm r origin) = origin) \<and>
         suffix (buildTraversalSequence tm r origin) (map pt_id (points r)) \<and>
         (distinct (map pt_id (points r)) \<longrightarrow> distinct (buildTraversalSequence tm r origin)) \<and>
         buildTraversalSequence tm r origin \<noteq> []"
proof (intro conjI)
  show "buildTraversalSequence tm r origin =
           (if origin \<in> set (map pt_id (points r))
            then dropWhile (\<lambda>p. p \<noteq> origin) (map pt_id (points r))
            else if \<exists>p \<in> set (map pt_id (points r)). 0 < getLegTime tm origin p
                 then dropWhile (\<lambda>p. \<not> 0 < getLegTime tm origin p) (map pt_id (points r))
                 else map pt_id (points r))"
    using buildTraversalSequence_eq [of tm r origin] by (simp add: Let_def)
  show "origin \<in> set (map pt_id (points r)) \<longrightarrow> hd (buildTraversalSequence tm r origin) = origin"
  proof
    assume m: "origin \<in> set (map pt_id (points r))"
    then have "buildTraversalSequence tm r origin = dropWhile (\<lambda>p. p \<noteq> origin) (map pt_id (points r))"
      using buildTraversalSequence_eq [of tm r origin] by (simp add: Let_def)
    moreover from m have "dropWhile (\<lambda>p. p \<noteq> origin) (map pt_id (points r)) \<noteq> []"
      by (intro dropWhile_nonempty) blast
    ultimately show "hd (buildTraversalSequence tm r origin) = origin"
      using hd_dropWhile [of "\<lambda>p. p \<noteq> origin" "map pt_id (points r)"] by simp
  qed
  show sfx: "suffix (buildTraversalSequence tm r origin) (map pt_id (points r))"
    by (rule buildTraversalSequence_suffix_of_route)
  from sfx show "distinct (map pt_id (points r)) \<longrightarrow> distinct (buildTraversalSequence tm r origin)"
    by (auto simp: suffix_def)
  from assms show "buildTraversalSequence tm r origin \<noteq> []"
    by (rule buildTraversalSequence_nonempty)
qed

subsection \<open>The leg loop and the start time\<close>

lemma legLoop_rows:
  "\<exists>ys. legLoop tm routeSeq i c cur tot rws = (tot + sum_list (map legTimeMin ys), rws @ ys) \<and>
        length ys = (length routeSeq - 1) - i \<and>
        map (\<lambda>l. (leg_from l, leg_to l)) ys =
          map (\<lambda>k. (routeSeq ! k, routeSeq ! Suc k)) [i..<length routeSeq - 1] \<and>
        (\<forall>l \<in> set ys. legTimeMin l = getLegTime tm (leg_from l) (leg_to l)) \<and>
        map legIndex ys = [c + 1..<c + 1 + length ys]"
proof (induction tm routeSeq i c cur tot rws rule: legLoop.induct)
  case (1 tm routeSeq i c cur tot rws)
  show ?case
  proof (cases "i + 1 < length routeSeq")
    case False
    then have "legLoop tm routeSeq i c cur tot rws = (tot, rws)"
      by (subst legLoop.simps) simp
    with False show ?thesis by simp
  next
    case True
    define t where "t = getLegTime tm (routeSeq ! i) (routeSeq ! (i + 1))"
    define l where "l = mkLeg (c + 1) (routeSeq ! i) (routeSeq ! (i + 1)) t (cur + t)"
    from 1 [OF True refl refl refl] obtain ys where
      ys: "legLoop tm routeSeq (i + 1) (c + 1) (cur + t) (tot + t) (rws @ [l]) =
             (tot + t + sum_list (map legTimeMin ys), (rws @ [l]) @ ys)"
          "length ys = (length routeSeq - 1) - (i + 1)"
          "map (\<lambda>l. (leg_from l, leg_to l)) ys =
             map (\<lambda>k. (routeSeq ! k, routeSeq ! Suc k)) [i + 1..<length routeSeq - 1]"
          "\<forall>l \<in> set ys. legTimeMin l = getLegTime tm (leg_from l) (leg_to l)"
          "map legIndex ys = [c + 1 + 1..<c + 1 + 1 + length ys]"
      unfolding t_def l_def by blast
    have step: "legLoop tm routeSeq i c cur tot rws =
            legLoop tm routeSeq (i + 1) (c + 1) (cur + t) (tot + t) (rws @ [l])"
      using True by (subst legLoop.simps) (simp add: Let_def t_def l_def)
    have lt: "i < length routeSeq - 1" using True by simp
    have l_fields: "legTimeMin l = t" "leg_from l = routeSeq ! i" "leg_to l = routeSeq ! Suc i"
      "legIndex l = c + 1"
      by (simp_all add: l_def mkLeg_def)
    have "legLoop tm routeSeq i c cur tot rws =
            (tot + sum_list (map legTimeMin (l # ys)), rws @ (l # ys))"
      using step ys(1) l_fields by simp
    moreover have "length (l # ys) = (length routeSeq - 1) - i"
      using ys(2) True by simp
    moreover have "map (\<lambda>l. (leg_from l, leg_to l)) (l # ys) =
          map (\<lambda>k. (routeSeq ! k, routeSeq ! Suc k)) [i..<length routeSeq - 1]"
      using ys(3) l_fields lt by (simp add: upt_conv_Cons)
    moreover have "\<forall>x \<in> set (l # ys). legTimeMin x = getLegTime tm (leg_from x) (leg_to x)"
      using ys(4) l_fields by (simp add: t_def)
    moreover have "map legIndex (l # ys) = [c + 1..<c + 1 + length (l # ys)]"
    proof -
      have e: "[c + 1..<c + 1 + length (l # ys)] = (c + 1) # [c + 1 + 1..<c + 1 + 1 + length ys]"
        by (subst upt_conv_Cons) simp_all
      show ?thesis by (simp only: e list.map l_fields ys(5))
    qed
    ultimately show ?thesis by blast
  qed
qed

lemma split_HHMM:
  assumes "isDigit h1" "isDigit h2" "isDigit m1" "isDigit m2"
  shows "split_js (CHR '':'') [h1, h2, CHR '':'', m1, m2] = [[h1, h2], [m1, m2]]"
  using assms isDigit_not_colon by (auto)

lemma pad_two_digits:
  assumes a: "isDigit a" and b: "isDigit b"
  shows "padStart 2 (CHR ''0'') (String_js (decimalValue [a, b])) = [a, b]"
proof -
  from a have la: "digitVal a < 10" unfolding isDigit_def digitVal_def by arith
  from b have lb: "digitVal b < 10" unfolding isDigit_def digitVal_def by arith
  have v: "decimalValue [a, b] = digitVal a * 10 + digitVal b" by (simp add: decimalValue_def)
  show ?thesis
  proof (cases "digitVal a = 0")
    case True
    then have "digitChar (digitVal a) = CHR ''0''" by (simp add: digitChar_def)
    with a have a0: "a = CHR ''0''" using digitChar_digitVal by metis
    from True lb have "String_js (decimalValue [a, b]) = [digitChar (digitVal b)]"
      by (subst String_js.simps) (simp add: v)
    with b a0 show ?thesis by (simp add: padStart_def digitChar_digitVal)
  next
    case False
    with la lb have ge: "\<not> digitVal a * 10 + digitVal b < 10"
      and dv: "(digitVal a * 10 + digitVal b) div 10 = digitVal a"
      and md: "(digitVal a * 10 + digitVal b) mod 10 = digitVal b" by auto
    have "String_js (decimalValue [a, b]) =
            String_js (digitVal a) @ [digitChar (digitVal b)]"
      using ge dv md by (subst String_js.simps) (simp add: v)
    also have "String_js (digitVal a) = [digitChar (digitVal a)]"
      using la by (subst String_js.simps) simp
    finally show ?thesis using a b by (simp add: padStart_def digitChar_digitVal)
  qed
qed

lemma isHHMM_cases:
  assumes "isHHMM str"
  obtains h1 h2 m1 m2 where "str = [h1, h2, CHR '':'', m1, m2]"
    "isDigit h1" "isDigit h2" "isDigit m1" "isDigit m2"
    "decimalValue [h1, h2] < 24" "decimalValue [m1, m2] < 60"
  using assms unfolding isHHMM_def by (auto split: list.splits)

lemma startMinutes_roundtrip:
  assumes "isHHMM str"
  shows "minutesToHHMM (startMinutesOf str) = str"
proof -
  from assms obtain h1 h2 m1 m2 where s: "str = [h1, h2, CHR '':'', m1, m2]"
    and d: "isDigit h1" "isDigit h2" "isDigit m1" "isDigit m2"
    and m: "decimalValue [m1, m2] < 60" by (rule isHHMM_cases)
  have sp: "split_js (CHR '':'') str = [[h1, h2], [m1, m2]]"
    unfolding s using d by (rule split_HHMM)
  have "startMinutesOf str = decimalValue [h1, h2] * 60 + decimalValue [m1, m2]"
    using d by (simp add: startMinutesOf_def Let_def sp at_js_def numOrZero_def Number_js_def)
  with m d show ?thesis
    by (simp add: minutesToHHMM_def pad_two_digits s)
qed

lemma adjacent_zip: "map (\<lambda>k. (xs ! k, xs ! Suc k)) [0..<length xs - 1] = zip xs (tl xs)"
  by (rule nth_equalityI) (auto simp: nth_tl)

lemma calculateETAs_rows:
  assumes str: "str \<noteq> []" and trav: "buildTraversalSequence tm r origin = t0 # rest"
  shows "\<exists>ys. rows (calculateETAs tm r (Some str) origin) =
               (if origin \<noteq> t0
                then [mkLeg 1 origin t0 (getLegTime tm origin t0)
                        (startMinutesOf str + getLegTime tm origin t0)]
                else []) @ ys \<and>
              map (\<lambda>l. (leg_from l, leg_to l)) ys = zip (t0 # rest) rest \<and>
              (\<forall>l \<in> set ys. legTimeMin l = getLegTime tm (leg_from l) (leg_to l)) \<and>
              totalMinutes (calculateETAs tm r (Some str) origin) =
                Some (sum_list (map legTimeMin (rows (calculateETAs tm r (Some str) origin)))) \<and>
              finalEta (calculateETAs tm r (Some str) origin) =
                Some (if rows (calculateETAs tm r (Some str) origin) \<noteq> []
                      then eta (last (rows (calculateETAs tm r (Some str) origin)))
                      else minutesToHHMM (startMinutesOf str))"
proof -
  define lt where "lt = getLegTime tm origin t0"
  define c0 :: nat where "c0 = (if origin \<noteq> t0 then 1 else 0)"
  define cur0 where "cur0 = (if origin \<noteq> t0 then startMinutesOf str + lt else startMinutesOf str)"
  define tot0 where "tot0 = (if origin \<noteq> t0 then lt else 0)"
  define rws0 where "rws0 = (if origin \<noteq> t0 then [mkLeg 1 origin t0 lt (startMinutesOf str + lt)] else [])"
  from legLoop_rows [of tm "t0 # rest" 0 c0 cur0 tot0 rws0] obtain ys where
    ys: "legLoop tm (t0 # rest) 0 c0 cur0 tot0 rws0 = (tot0 + sum_list (map legTimeMin ys), rws0 @ ys)"
        "map (\<lambda>l. (leg_from l, leg_to l)) ys =
           map (\<lambda>k. ((t0 # rest) ! k, (t0 # rest) ! Suc k)) [0..<length (t0 # rest) - 1]"
        "\<forall>l \<in> set ys. legTimeMin l = getLegTime tm (leg_from l) (leg_to l)"
    by blast
  have tot: "tot0 = sum_list (map legTimeMin rws0)"
    by (simp add: tot0_def rws0_def mkLeg_def)
  have res: "calculateETAs tm r (Some str) origin =
          \<lparr>rows = rws0 @ ys, totalMinutes = Some (tot0 + sum_list (map legTimeMin ys)),
           finalEta = Some (if rws0 @ ys \<noteq> [] then eta (last (rws0 @ ys))
                            else minutesToHHMM (startMinutesOf str))\<rparr>"
  proof (cases "origin \<noteq> t0")
    case True
    with ys(1) show ?thesis
      using str trav
      by (simp add: calculateETAs_def Let_def c0_def cur0_def tot0_def rws0_def lt_def)
  next
    case False
    with ys(1) show ?thesis
      using str trav
      by (simp add: calculateETAs_def Let_def c0_def cur0_def tot0_def rws0_def lt_def)
  qed
  have pairs: "map (\<lambda>l. (leg_from l, leg_to l)) ys = zip (t0 # rest) rest"
    using ys(2) adjacent_zip [of "t0 # rest"] by simp
  show ?thesis
    using pairs ys(3) tot by (intro exI [of _ ys]) (simp add: res rws0_def lt_def)
qed

lemma calculateETAs_no_points:
  "points r = [] \<Longrightarrow> calculateETAs tm r st origin = noRows"
  by (auto simp: calculateETAs_def Let_def buildTraversalSequence_eq split: option.splits)

subsection \<open>The configured route and matrix\<close>

lemma routeA_ids: "map pt_id (points routeA) = [''P'', ''Q'', ''R'', ''S'', ''T'', ''U'', ''S/P'']"
  by (simp add: routeA_def mkPoint_def)

lemma startMinutes_0600: "startMinutesOf ''06:00'' = 360"
  by (simp add: startMinutesOf_def Let_def at_js_def numOrZero_def Number_js_def isDigit_def
      decimalValue_def digitVal_def)

lemma trav_P: "buildTraversalSequence timeMatrix routeA ''P'' = [''P'', ''Q'', ''R'', ''S'', ''T'', ''U'', ''S/P'']"
  by (simp add: buildTraversalSequence_eq Let_def routeA_ids)

lemma legs_A:
  "getLegTime timeMatrix ''P'' ''Q'' = 14" "getLegTime timeMatrix ''Q'' ''R'' = 12"
  "getLegTime timeMatrix ''R'' ''S'' = 11" "getLegTime timeMatrix ''S'' ''T'' = 9"
  "getLegTime timeMatrix ''T'' ''U'' = 15" "getLegTime timeMatrix ''U'' ''S/P'' = 8"
  by (simp_all add: getLegTime_def entry_def timeMatrix_def)

lemma clocks:
  "minutesToHHMM 374 = ''06:14''" "minutesToHHMM 386 = ''06:26''" "minutesToHHMM 397 = ''06:37''"
  "minutesToHHMM 406 = ''06:46''" "minutesToHHMM 421 = ''07:01''" "minutesToHHMM 429 = ''07:09''"
  by (simp_all add: minutesToHHMM_def padStart_def String_js.simps digitChar_def)

lemma loop_A:
  "legLoop timeMatrix [''P'', ''Q'', ''R'', ''S'', ''T'', ''U'', ''S/P''] 0 0 360 0 [] =
     (69, [mkLeg 1 ''P'' ''Q'' 14 374, mkLeg 2 ''Q'' ''R'' 12 386, mkLeg 3 ''R'' ''S'' 11 397,
           mkLeg 4 ''S'' ''T'' 9 406, mkLeg 5 ''T'' ''U'' 15 421, mkLeg 6 ''U'' ''S/P'' 8 429])"
  by (simp add: legLoop.simps Let_def legs_A eval_nat_numeral)

text \<open>
  Claim C5. The configured first route is \<^verbatim>\<open>P, Q, R, S, T, U, S/P\<close>; with the configured
  matrix, start time \<^verbatim>\<open>06:00\<close> and origin \<^verbatim>\<open>P\<close>, \<open>calculateETAs\<close> yields exactly six legs,
  of 14, 12, 11, 9, 15 and 8 minutes, with etas \<^verbatim>\<open>06:14\<close>, \<^verbatim>\<open>06:26\<close>, \<^verbatim>\<open>06:37\<close>, \<^verbatim>\<open>06:46\<close>,
  \<^verbatim>\<open>07:01\<close>, \<^verbatim>\<open>07:09\<close>, a total of 69 minutes and the final eta \<^verbatim>\<open>07:09\<close>.
\<close>

theorem calculateETAs_scenario_1: "map pt_id (points routeA) = [''P'', ''Q'', ''R'', ''S'', ''T'', ''U'', ''S/P''] \<and>
   map (\<lambda>l. (legIndex l, leg_from l, leg_to l, legTimeMin l, eta l))
       (rows (calculateETAs timeMatrix routeA (Some ''06:00'') ''P'')) =
     [(1, ''P'', ''Q'', 14, ''06:14''), (2, ''Q'', ''R'', 12, ''06:26''),
      (3, ''R'', ''S'', 11, ''06:37''), (4, ''S'', ''T'', 9, ''06:46''),
      (5, ''T'', ''U'', 15, ''07:01''), (6, ''U'', ''S/P'', 8, ''07:09'')] \<and>
   totalMinutes (calculateETAs timeMatrix routeA (Some ''06:00'') ''P'') = Some 69 \<and>
   finalEta (calculateETAs timeMatrix routeA (Some ''06:00'') ''P'') = Some ''07:09''"
proof -
  have "calculateETAs timeMatrix routeA (Some ''06:00'') ''P'' =
     \<lparr>rows = [mkLeg 1 ''P'' ''Q'' 14 374, mkLeg 2 ''Q'' ''R'' 12 386, mkLeg 3 ''R'' ''S'' 11 397,
           mkLeg 4 ''S'' ''T'' 9 406, mkLeg 5 ''T'' ''U'' 15 421, mkLeg 6 ''U'' ''S/P'' 8 429],
      totalMinutes = Some 69, finalEta = Some ''07:09''\<rparr>"
    by (simp add: calculateETAs_def Let_def startMinutes_0600 trav_P loop_A)
       (simp add: mkLeg_def clocks)
  then show ?thesis by (simp add: routeA_ids mkLeg_def clocks)
qed

subsection \<open>Totals, the external origin and the missing start time\<close>

text \<open>
  Claim C6, as amended. For a start time of the form \<^verbatim>\<open>HH:MM\<close> and a route with at least
  one point, \<^verbatim>\<open>totalMinutes\<close> is the sum of the minutes of the rows and \<^verbatim>\<open>finalEta\<close> is the
  eta of the last row, or the start time when there is no row. On a route with no points
  the result is the bare empty array: neither property is attached.
\<close>

theorem calculateETAs_totals:
  assumes "isHHMM str"
  shows "(points r \<noteq> [] \<longrightarrow>
            totalMinutes (calculateETAs tm r (Some str) origin) =
              Some (sum_list (map legTimeMin (rows (calculateETAs tm r (Some str) origin)))) \<and>
            finalEta (calculateETAs tm r (Some str) origin) =
              Some (if rows (calculateETAs tm r (Some str) origin) = [] then str
                    else eta (last (rows (calculateETAs tm r (Some str) origin))))) \<and>
         (points r = [] \<longrightarrow> calculateETAs tm r (Some str) origin = noRows)"
proof (intro conjI impI)
  assume ne: "points r \<noteq> []"
  from assms have str: "str \<noteq> []" by (auto simp: isHHMM_def)
  from ne obtain t0 rest where trav: "buildTraversalSequence tm r origin = t0 # rest"
    using buildTraversalSequence_nonempty [of r tm origin] by (cases "buildTraversalSequence tm r origin") auto
  from calculateETAs_rows [OF str trav]
  show "totalMinutes (calculateETAs tm r (Some str) origin) =
              Some (sum_list (map legTimeMin (rows (calculateETAs tm r (Some str) origin))))"
    by blast
  from calculateETAs_rows [OF str trav]
  have "finalEta (calculateETAs tm r (Some str) origin) =
                Some (if rows (calculateETAs tm r (Some str) origin) \<noteq> []
                      then eta (last (rows (calculateETAs tm r (Some str) origin)))
                      else minutesToHHMM (startMinutesOf str))"
    by blast
  then show "finalEta (calculateETAs tm r (Some str) origin) =
              Some (if rows (calculateETAs tm r (Some str) origin) = [] then str
                    else eta (last (rows (calculateETAs tm r (Some str) origin))))"
    by (simp add: startMinutes_roundtrip [OF assms])
next
  assume "points r = []"
  then show "calculateETAs tm r (Some str) origin = noRows"
    by (rule calculateETAs_no_points)
qed

lemma isHHMM_0600: "isHHMM ''06:00''"
  by (simp add: isHHMM_def isDigit_def decimalValue_def digitVal_def)

text \<open>Claim C6 as amended, on the first configured route and on a route with no points.\<close>

theorem calculateETAs_totals_witness:
  "isHHMM ''06:00'' \<and> points routeA \<noteq> [] \<and> points routeNoPoints = [] \<and>
   totalMinutes (calculateETAs timeMatrix routeA (Some ''06:00'') ''P'') =
     Some (sum_list (map legTimeMin (rows (calculateETAs timeMatrix routeA (Some ''06:00'') ''P'')))) \<and>
   calculateETAs timeMatrix routeNoPoints (Some ''06:00'') ''P'' = noRows"
proof -
  have a: "points routeA \<noteq> []" by (simp add: routeA_def)
  have b: "points routeNoPoints = []" by (simp add: routeNoPoints_def)
  from calculateETAs_totals [OF isHHMM_0600, of routeA timeMatrix "''P''"] a
  have "totalMinutes (calculateETAs timeMatrix routeA (Some ''06:00'') ''P'') =
     Some (sum_list (map legTimeMin (rows (calculateETAs timeMatrix routeA (Some ''06:00'') ''P''))))"
    by blast
  moreover from calculateETAs_totals [OF isHHMM_0600, of routeNoPoints timeMatrix "''P''"] b
  have "calculateETAs timeMatrix routeNoPoints (Some ''06:00'') ''P'' = noRows" by blast
  ultimately show ?thesis using isHHMM_0600 a b by blast
qed

text \<open>
  Claim C6 as first stated fails on a route with no points: no row is emitted, and the
  result carries no \<^verbatim>\<open>totalMinutes\<close> (not the sum \<open>0\<close>) and no \<^verbatim>\<open>finalEta\<close> (not the start
  time).
\<close>

theorem calculateETAs_totals_counterexample:
  "isHHMM ''06:00'' \<and>
   rows (calculateETAs timeMatrix routeNoPoints (Some ''06:00'') ''VOCC'') = [] \<and>
   totalMinutes (calculateETAs timeMatrix routeNoPoints (Some ''06:00'') ''VOCC'') \<noteq>
     Some (sum_list (map legTimeMin (rows (calculateETAs timeMatrix routeNoPoints (Some ''06:00'') ''VOCC'')))) \<and>
   finalEta (calculateETAs timeMatrix routeNoPoints (Some ''06:00'') ''VOCC'') \<noteq> Some ''06:00''"
proof -
  have "calculateETAs timeMatrix routeNoPoints (Some ''06:00'') ''VOCC'' = noRows"
    by (rule calculateETAs_no_points) (simp add: routeNoPoints_def)
  then show ?thesis using isHHMM_0600 by (simp add: noRows_def)
qed

text \<open>
  Claim C10. For a start time of the form \<^verbatim>\<open>HH:MM\<close>, a route with at least one point and an
  origin that is not a point of the route and has no positive leg time to any of its
  points, the first row goes from the origin to the first point of the route in \<open>0\<close>
  minutes (so its eta is the start time), and the rows after it are the legs between the
  adjacent points of the whole route.
\<close>

theorem calculateETAs_external_origin:
  assumes hhmm: "isHHMM str" and ne: "points r \<noteq> []"
    and ext: "origin \<notin> set (map pt_id (points r))"
    and unreachable: "\<forall>p \<in> set (map pt_id (points r)). \<not> 0 < getLegTime tm origin p"
  shows "rows (calculateETAs tm r (Some str) origin) \<noteq> [] \<and>
         legIndex (hd (rows (calculateETAs tm r (Some str) origin))) = 1 \<and>
         leg_from (hd (rows (calculateETAs tm r (Some str) origin))) = origin \<and>
         leg_to (hd (rows (calculateETAs tm r (Some str) origin))) = pt_id (hd (points r)) \<and>
         legTimeMin (hd (rows (calculateETAs tm r (Some str) origin))) = 0 \<and>
         eta (hd (rows (calculateETAs tm r (Some str) origin))) = str \<and>
         map (\<lambda>l. (leg_from l, leg_to l)) (tl (rows (calculateETAs tm r (Some str) origin))) =
           zip (map pt_id (points r)) (tl (map pt_id (points r)))"
proof -
  from hhmm have str: "str \<noteq> []" by (auto simp: isHHMM_def)
  have trav: "buildTraversalSequence tm r origin = map pt_id (points r)"
    using ext unreachable by (simp add: buildTraversalSequence_eq Let_def)
  from ne obtain p ps where pts: "points r = p # ps" by (cases "points r") auto
  then have trav': "buildTraversalSequence tm r origin = pt_id p # map pt_id ps"
    using trav by simp
  from ext pts have neq: "origin \<noteq> pt_id p" by auto
  from unreachable pts have zero: "getLegTime tm origin (pt_id p) = 0" by simp
  from calculateETAs_rows [OF str trav'] neq zero obtain ys where
    ys: "rows (calculateETAs tm r (Some str) origin) =
           mkLeg 1 origin (pt_id p) 0 (startMinutesOf str) # ys"
        "map (\<lambda>l. (leg_from l, leg_to l)) ys = zip (pt_id p # map pt_id ps) (map pt_id ps)"
    by auto
  show ?thesis
    using ys pts by (simp add: mkLeg_def startMinutes_roundtrip [OF hhmm])
qed

text \<open>Claim C10 at the origin \<^verbatim>\<open>X\<close>, which the configured matrix does not know.\<close>

theorem calculateETAs_external_origin_witness:
  "isHHMM ''06:00'' \<and> points routeA \<noteq> [] \<and> ''X'' \<notin> set (map pt_id (points routeA)) \<and>
   list_all (\<lambda>p. \<not> 0 < getLegTime timeMatrix ''X'' p) (map pt_id (points routeA)) \<and>
   leg_from (hd (rows (calculateETAs timeMatrix routeA (Some ''06:00'') ''X''))) = ''X'' \<and>
   leg_to (hd (rows (calculateETAs timeMatrix routeA (Some ''06:00'') ''X''))) = ''P'' \<and>
   legTimeMin (hd (rows (calculateETAs timeMatrix routeA (Some ''06:00'') ''X''))) = 0"
proof -
  have a: "points routeA \<noteq> []" by (simp add: routeA_def)
  have b: "''X'' \<notin> set (map pt_id (points routeA))" by (simp add: routeA_ids)
  have c: "\<forall>p \<in> set (map pt_id (points routeA)). \<not> 0 < getLegTime timeMatrix ''X'' p"
    by (simp add: routeA_ids getLegTime_def entry_def timeMatrix_def)
  have d: "pt_id (hd (points routeA)) = ''P''" by (simp add: routeA_def mkPoint_def)
  from c have c': "list_all (\<lambda>p. \<not> 0 < getLegTime timeMatrix ''X'' p) (map pt_id (points routeA))"
    by (simp add: list_all_iff)
  from calculateETAs_external_origin [OF isHHMM_0600 a b c] d
  have "leg_from (hd (rows (calculateETAs timeMatrix routeA (Some ''06:00'') ''X''))) = ''X''"
    "leg_to (hd (rows (calculateETAs timeMatrix routeA (Some ''06:00'') ''X''))) = ''P''"
    "legTimeMin (hd (rows (calculateETAs timeMatrix routeA (Some ''06:00'') ''X''))) = 0"
    by simp_all
  with isHHMM_0600 a b c' show ?thesis by blast
qed

text \<open>
  Claim C2, as amended. \<open>calculateETAs\<close> returns the bare empty array when the start time is
  missing or the empty string. Any other string is accepted: on a route with points the
  totals are attached, whatever the string looks like.
\<close>

theorem calculateETAs_missing_start:
  "calculateETAs tm r None origin = noRows \<and>
   calculateETAs tm r (Some []) origin = noRows \<and>
   (str \<noteq> [] \<and> points r \<noteq> [] \<longrightarrow>
      totalMinutes (calculateETAs tm r (Some str) origin) \<noteq> None \<and>
      calculateETAs tm r (Some str) origin \<noteq> noRows)"
proof (intro conjI impI)
  show "calculateETAs tm r None origin = noRows" by (simp add: calculateETAs_def)
  show "calculateETAs tm r (Some []) origin = noRows" by (simp add: calculateETAs_def)
  assume h: "str \<noteq> [] \<and> points r \<noteq> []"
  then obtain t0 rest where trav: "buildTraversalSequence tm r origin = t0 # rest"
    using buildTraversalSequence_nonempty [of r tm origin] by (cases "buildTraversalSequence tm r origin") auto
  from h calculateETAs_rows [OF _ trav, of str]
  show t: "totalMinutes (calculateETAs tm r (Some str) origin) \<noteq> None" by auto
  then show "calculateETAs tm r (Some str) origin \<noteq> noRows" by (auto simp: noRows_def)
qed

lemma startMinutes_abc: "startMinutesOf ''abc'' = 0"
  by (simp add: startMinutesOf_def Let_def at_js_def numOrZero_def Number_js_def isDigit_def)

lemma clocks0:
  "minutesToHHMM 14 = ''00:14''" "minutesToHHMM 26 = ''00:26''" "minutesToHHMM 37 = ''00:37''"
  "minutesToHHMM 46 = ''00:46''" "minutesToHHMM 61 = ''01:01''" "minutesToHHMM 69 = ''01:09''"
  by (simp_all add: minutesToHHMM_def padStart_def String_js.simps digitChar_def)

lemma loop_A0:
  "legLoop timeMatrix [''P'', ''Q'', ''R'', ''S'', ''T'', ''U'', ''S/P''] 0 0 0 0 [] =
     (69, [mkLeg 1 ''P'' ''Q'' 14 14, mkLeg 2 ''Q'' ''R'' 12 26, mkLeg 3 ''R'' ''S'' 11 37,
           mkLeg 4 ''S'' ''T'' 9 46, mkLeg 5 ''T'' ''U'' 15 61, mkLeg 6 ''U'' ''S/P'' 8 69])"
  by (simp add: legLoop.simps Let_def legs_A eval_nat_numeral)

text \<open>Claim C2 as amended, at the start string \<^verbatim>\<open>abc\<close>.\<close>

theorem calculateETAs_missing_start_witness:
  "''abc'' \<noteq> [] \<and> points routeA \<noteq> [] \<and>
   totalMinutes (calculateETAs timeMatrix routeA (Some ''abc'') ''P'') \<noteq> None"
  using calculateETAs_missing_start [of timeMatrix routeA "''P''" "''abc''"]
  by (simp add: routeA_def)

text \<open>
  Claim C2 as first stated fails at \<^verbatim>\<open>abc\<close>, which is no clock time: both components count
  as \<open>0\<close> and the six legs of the first route are scheduled from \<^verbatim>\<open>00:00\<close>.
\<close>

theorem calculateETAs_unparseable_counterexample:
  "\<not> isHHMM ''abc'' \<and>
   map eta (rows (calculateETAs timeMatrix routeA (Some ''abc'') ''P'')) =
     [''00:14'', ''00:26'', ''00:37'', ''00:46'', ''01:01'', ''01:09''] \<and>
   rows (calculateETAs timeMatrix routeA (Some ''abc'') ''P'') \<noteq> []"
proof -
  have "calculateETAs timeMatrix routeA (Some ''abc'') ''P'' =
     \<lparr>rows = [mkLeg 1 ''P'' ''Q'' 14 14, mkLeg 2 ''Q'' ''R'' 12 26, mkLeg 3 ''R'' ''S'' 11 37,
           mkLeg 4 ''S'' ''T'' 9 46, mkLeg 5 ''T'' ''U'' 15 61, mkLeg 6 ''U'' ''S/P'' 8 69],
      totalMinutes = Some 69, finalEta = Some ''01:09''\<rparr>"
    by (simp add: calculateETAs_def Let_def startMinutes_abc trav_P loop_A0)
       (simp add: mkLeg_def clocks0)
  then show ?thesis by (simp add: mkLeg_def clocks0 isHHMM_def)
qed

subsection \<open>Selection state: what each function leaves alone\<close>

lemma getHotspotById_Some:
  assumes "getHotspotById hs i = Some k"
  shows "k < length hs \<and> hid (hs ! k) = i"
proof -
  from assms have ne: "findIndex (\<lambda>h. hid h = i) hs \<noteq> -1" and k: "k = nat (findIndex (\<lambda>h. hid h = i) hs)"
    by (auto simp: getHotspotById_def Let_def split: if_splits)
  from ne have ex: "\<exists>h \<in> set hs. hid h = i" by (simp add: findIndex_none)
  from findIndex_nth [OF ex] findIndex_lt [of "\<lambda>h. hid h = i" hs] k show ?thesis by auto
qed

lemma getHotspotById_None: "getHotspotById hs i = None \<Longrightarrow> i \<notin> set (map hid hs)"
  by (auto simp: getHotspotById_def Let_def findIndex_none split: if_splits)

lemma map_hid_update: "hid y = hid (xs ! k) \<Longrightarrow> map hid (xs[k := y]) = map hid xs"
  by (cases "k < length xs") (simp_all add: map_update list_update_same_conv list_update_beyond)

lemma highlightPoint_hids: "map hid (hotspots (highlightPoint i s)) = map hid (hotspots s)"
proof (cases "activePointId s = Some i")
  case True
  then show ?thesis by (simp add: highlightPoint_def)
next
  case False
  define hs where "hs = hotspots s"
  define hs1 where "hs1 = (case activePointId s of
                      None \<Rightarrow> hs
                    | Some a \<Rightarrow>
                        if a = [] then hs
                        else (case getHotspotById hs a of
                                None \<Rightarrow> hs
                              | Some k \<Rightarrow> hs[k := (hs ! k)\<lparr>selected := False\<rparr>]))"
  define hs2 where "hs2 = map (\<lambda>h. h\<lparr>dim := False\<rparr>) hs1"
  define hs3 where "hs3 = (case getHotspotById hs2 i of
                      None \<Rightarrow> hs2
                    | Some t \<Rightarrow>
                        (map (\<lambda>h. h\<lparr>dim := True\<rparr>) hs2)[t := (hs2 ! t)\<lparr>selected := True\<rparr>])"
  have res: "hotspots (highlightPoint i s) = hs3"
    using False unfolding hs3_def hs2_def hs1_def hs_def by (simp add: highlightPoint_def Let_def)
  have a: "map hid (xs[k := (xs ! k)\<lparr>selected := False\<rparr>]) = map hid xs" for xs :: "hotspot list" and k
    by (rule map_hid_update) simp
  have c: "map hid ((map (\<lambda>h. h\<lparr>dim := True\<rparr>) xs)[t := (xs ! t)\<lparr>selected := True\<rparr>]) = map hid xs"
    for xs :: "hotspot list" and t
    by (cases "t < length xs") (simp_all add: map_update comp_def list_update_same_conv list_update_beyond)
  have "map hid hs1 = map hid hs"
    by (simp add: hs1_def a split: option.splits)
  moreover have "map hid hs2 = map hid hs1" by (simp add: hs2_def comp_def)
  moreover have "map hid hs3 = map hid hs2"
    by (simp add: hs3_def c split: option.splits)
  ultimately show ?thesis by (simp add: res hs_def)
qed

lemma highlightPoint_keeps:
  "currentRoute (highlightPoint i s) = currentRoute s"
  "currentPointIndex (highlightPoint i s) = currentPointIndex s"
  "pointsVisible (highlightPoint i s) = pointsVisible s"
  "activePointId (highlightPoint i s) = Some i"
  by (simp_all add: highlightPoint_def Let_def)

lemma renderPanel_keeps:
  "currentRoute (renderPanel s) = currentRoute s"
  "currentPointIndex (renderPanel s) = currentPointIndex s"
  "pointsVisible (renderPanel s) = pointsVisible s"
  "map hid (hotspots (renderPanel s)) = map hid (hotspots s)"
  "activePointId (renderPanel s) =
     (case at_js (points (currentRoute s)) (currentPointIndex s) of
        None \<Rightarrow> activePointId s
      | Some p \<Rightarrow> Some (pt_id p))"
  by (simp_all add: renderPanel_def Let_def setPointsVisibility_def highlightPoint_keeps
      highlightPoint_hids split: option.splits)

subsection \<open>Exclusivity is preserved\<close>

lemma highlightPoint_selected:
  assumes wf: "wellFormedPage (hotspots s)" and ex: "exclusive s"
  shows "\<forall>h \<in> set (hotspots (highlightPoint i s)). selected h \<longrightarrow> hid h = i"
proof (cases "activePointId s = Some i")
  case True
  with ex show ?thesis by (auto simp: highlightPoint_def exclusive_def)
next
  case False
  define hs where "hs = hotspots s"
  define hs1 where "hs1 = (case activePointId s of
                      None \<Rightarrow> hs
                    | Some a \<Rightarrow>
                        if a = [] then hs
                        else (case getHotspotById hs a of
                                None \<Rightarrow> hs
                              | Some k \<Rightarrow> hs[k := (hs ! k)\<lparr>selected := False\<rparr>]))"
  define hs2 where "hs2 = map (\<lambda>h. h\<lparr>dim := False\<rparr>) hs1"
  define hs3 where "hs3 = (case getHotspotById hs2 i of
                      None \<Rightarrow> hs2
                    | Some t \<Rightarrow>
                        (map (\<lambda>h. h\<lparr>dim := True\<rparr>) hs2)[t := (hs2 ! t)\<lparr>selected := True\<rparr>])"
  have res: "hotspots (highlightPoint i s) = hs3"
    using False unfolding hs3_def hs2_def hs1_def hs_def by (simp add: highlightPoint_def Let_def)
  from wf have dist: "distinct (map hid hs)" and nonempty: "[] \<notin> set (map hid hs)"
    by (simp_all add: wellFormedPage_def hs_def)
  from ex have sel: "\<And>h. h \<in> set hs \<Longrightarrow> selected h \<Longrightarrow> activePointId s = Some (hid h)"
    by (simp add: exclusive_def hs_def)
  have none1: "\<forall>h \<in> set hs1. \<not> selected h"
  proof (cases "activePointId s")
    case None
    with sel show ?thesis by (auto simp: hs1_def)
  next
    case (Some a)
    show ?thesis
    proof (cases "a = []")
      case True
      have "\<forall>h \<in> set hs. \<not> selected h"
      proof
        fix h assume h: "h \<in> set hs"
        show "\<not> selected h"
        proof
          assume "selected h"
          with sel [OF h] Some True have "hid h = []" by simp
          with h nonempty show False by force
        qed
      qed
      with Some True show ?thesis by (simp add: hs1_def)
    next
      case ne: False
      show ?thesis
      proof (cases "getHotspotById hs a")
        case None
        then have na: "a \<notin> set (map hid hs)" by (rule getHotspotById_None)
        have "\<forall>h \<in> set hs. \<not> selected h"
        proof
          fix h assume h: "h \<in> set hs"
          show "\<not> selected h"
          proof
            assume "selected h"
            with sel [OF h] Some have "hid h = a" by simp
            with h na show False by force
          qed
        qed
        with Some ne None show ?thesis by (simp add: hs1_def)
      next
        case (Some k)
        then have k: "k < length hs" "hid (hs ! k) = a" using getHotspotById_Some by blast+
        have h1: "hs1 = hs[k := (hs ! k)\<lparr>selected := False\<rparr>]"
          using \<open>activePointId s = Some a\<close> ne Some by (simp add: hs1_def)
        show ?thesis
        proof
          fix h assume "h \<in> set hs1"
          then obtain j where j: "j < length hs" "h = hs1 ! j"
            by (auto simp: h1 in_set_conv_nth)
          show "\<not> selected h"
          proof (cases "j = k")
            case True
            with j k show ?thesis by (simp add: h1)
          next
            case jk: False
            with j have hj: "h = hs ! j" by (simp add: h1)
            show ?thesis
            proof
              assume "selected h"
              with sel [of h] hj j \<open>activePointId s = Some a\<close> have "hid (hs ! j) = a" by auto
              with k j have "map hid hs ! j = map hid hs ! k" by simp
              with nth_eq_iff_index_eq [OF dist, of j k] j k have "j = k" by simp
              with jk show False by simp
            qed
          qed
        qed
      qed
    qed
  qed
  then have none2: "\<forall>h \<in> set hs2. \<not> selected h" by (simp add: hs2_def)
  have "\<forall>h \<in> set hs3. selected h \<longrightarrow> hid h = i"
  proof (cases "getHotspotById hs2 i")
    case None
    with none2 show ?thesis by (simp add: hs3_def)
  next
    case (Some t)
    then have t: "t < length hs2" "hid (hs2 ! t) = i" using getHotspotById_Some by blast+
    have h3: "hs3 = (map (\<lambda>h. h\<lparr>dim := True\<rparr>) hs2)[t := (hs2 ! t)\<lparr>selected := True\<rparr>]"
      by (simp add: hs3_def Some)
    have sub: "set hs3 \<subseteq> insert ((hs2 ! t)\<lparr>selected := True\<rparr>) (set (map (\<lambda>h. h\<lparr>dim := True\<rparr>) hs2))"
      unfolding h3 by (rule set_update_subset_insert)
    have dimmed: "\<forall>h \<in> set (map (\<lambda>h. h\<lparr>dim := True\<rparr>) hs2). \<not> selected h"
      using none2 by simp
    show ?thesis
    proof (intro ballI impI)
      fix h assume h: "h \<in> set hs3" and s: "selected h"
      from h sub have "h = (hs2 ! t)\<lparr>selected := True\<rparr> \<or> h \<in> set (map (\<lambda>h. h\<lparr>dim := True\<rparr>) hs2)"
        by blast
      with dimmed s have "h = (hs2 ! t)\<lparr>selected := True\<rparr>" by blast
      with t show "hid h = i" by simp
    qed
  qed
  with res show ?thesis by simp
qed

lemma highlightPoint_pageInv:
  assumes "pageInv s"
  shows "pageInv (highlightPoint i s)"
proof -
  from assms have wf: "wellFormedPage (hotspots s)" and ex: "exclusive s"
    by (simp_all add: pageInv_def)
  from wf have "wellFormedPage (hotspots (highlightPoint i s))"
    by (simp add: wellFormedPage_def highlightPoint_hids)
  moreover from highlightPoint_selected [OF wf ex, of i] have "exclusive (highlightPoint i s)"
    by (simp add: exclusive_def highlightPoint_keeps)
  ultimately show ?thesis by (simp add: pageInv_def)
qed

lemma unhighlightAll_pageInv: "pageInv s \<Longrightarrow> pageInv (unhighlightAll s)"
  by (simp add: pageInv_def wellFormedPage_def exclusive_def unhighlightAll_def comp_def)

lemma update_pageInv:
  "pageInv s \<Longrightarrow> pageInv (s\<lparr>currentRoute := r\<rparr>)"
  "pageInv s \<Longrightarrow> pageInv (s\<lparr>currentPointIndex := k\<rparr>)"
  "pageInv s \<Longrightarrow> pageInv (s\<lparr>pointsVisible := b\<rparr>)"
  by (simp_all add: pageInv_def exclusive_def)

lemma renderPanel_pageInv:
  assumes "pageInv s"
  shows "pageInv (renderPanel s)"
proof (cases "at_js (points (currentRoute s)) (currentPointIndex s)")
  case None
  with assms show ?thesis by (simp add: renderPanel_def)
next
  case (Some p)
  have "pageInv (highlightPoint (pt_id p) s)" using assms by (rule highlightPoint_pageInv)
  then have "pageInv ((highlightPoint (pt_id p) s)\<lparr>pointsVisible := pointsVisible (highlightPoint (pt_id p) s)\<rparr>)"
    by (rule update_pageInv)
  with Some show ?thesis by (simp add: renderPanel_def Let_def setPointsVisibility_def)
qed

lemma showRoute_cases:
  assumes "showRoute rts v s = Some s'"
  obtains r where "s' = renderPanel ((s\<lparr>currentRoute := r\<rparr>)\<lparr>currentPointIndex := 0\<rparr>)"
  | r where "s' = renderPanel (s\<lparr>currentRoute := r\<rparr>)"
  | r where "s' = unhighlightAll (s\<lparr>currentRoute := r\<rparr>)"
  using assms by (auto simp: showRoute_def Let_def split: option.splits if_splits)

lemma showRoute_pageInv:
  assumes "pageInv s" and "showRoute rts v s = Some s'"
  shows "pageInv s'"
  using assms(2)
proof (cases rule: showRoute_cases)
  case (1 r)
  with assms(1) show ?thesis by (simp add: renderPanel_pageInv update_pageInv)
next
  case (2 r)
  with assms(1) show ?thesis by (simp add: renderPanel_pageInv update_pageInv)
next
  case (3 r)
  with assms(1) show ?thesis by (simp add: unhighlightAll_pageInv update_pageInv)
qed

lemma showRoute_total: "rts \<noteq> [] \<Longrightarrow> \<exists>s'. showRoute rts v s = Some s'"
  by (cases rts) (simp_all add: showRoute_def Let_def at_js_def split: option.splits)

lemma searchRoutes_pageInv:
  "pageInv s \<Longrightarrow> searchRoutes rts rs pid s = Some (k, s') \<Longrightarrow> pageInv s'"
proof (induction rs)
  case Nil
  then show ?case by simp
next
  case (Cons r rs)
  show ?case
  proof (cases "findIndex (\<lambda>pt. pt_id pt = pid) (points r) \<noteq> -1")
    case True
    with Cons.prems(2) obtain s1 where
      "showRoute rts (route_id r) (s\<lparr>currentRoute := r\<rparr>) = Some s1" "s' = s1"
      by (auto simp: Let_def split: option.splits)
    moreover have "pageInv (s\<lparr>currentRoute := r\<rparr>)" using Cons.prems(1) by (rule update_pageInv)
    ultimately show ?thesis using showRoute_pageInv by blast
  next
    case False
    with Cons show ?thesis by (simp add: Let_def)
  qed
qed

lemma searchRoutes_total: "rts \<noteq> [] \<Longrightarrow> \<exists>k s'. searchRoutes rts rs pid s = Some (k, s')"
proof (induction rs)
  case Nil
  then show ?case by simp
next
  case (Cons r rs)
  show ?case
  proof (cases "findIndex (\<lambda>pt. pt_id pt = pid) (points r) \<noteq> -1")
    case True
    from showRoute_total [OF Cons.prems, of "route_id r" "s\<lparr>currentRoute := r\<rparr>"]
    obtain s1 where "showRoute rts (route_id r) (s\<lparr>currentRoute := r\<rparr>) = Some s1" by blast
    with True show ?thesis by (simp add: Let_def)
  next
    case False
    with Cons show ?thesis by (simp add: Let_def)
  qed
qed

lemma hotspot_click_in_route:
  assumes "findIndex (\<lambda>pt. pt_id pt = pid) (points (currentRoute s)) \<noteq> -1"
  shows "hotspot_click rts pid s =
           Some (renderPanel (s\<lparr>currentPointIndex :=
                   findIndex (\<lambda>pt. pt_id pt = pid) (points (currentRoute s))\<rparr>))"
  using assms by (simp add: hotspot_click_def Let_def)

lemma hotspot_click_elsewhere:
  assumes "findIndex (\<lambda>pt. pt_id pt = pid) (points (currentRoute s)) = -1"
    and "searchRoutes rts rts pid s = Some (k, s1)"
  shows "hotspot_click rts pid s =
           Some (if k = -1 then highlightPoint pid s1
                 else renderPanel (s1\<lparr>currentPointIndex := k\<rparr>))"
  using assms by (simp add: hotspot_click_def Let_def)

lemma hotspot_click_pageInv:
  assumes inv: "pageInv s" and c: "hotspot_click rts pid s = Some s'"
  shows "pageInv s'"
proof (cases "findIndex (\<lambda>pt. pt_id pt = pid) (points (currentRoute s)) = -1")
  case False
  with c hotspot_click_in_route [of pid s rts] inv show ?thesis
    by (auto simp: renderPanel_pageInv update_pageInv)
next
  case True
  show ?thesis
  proof (cases "searchRoutes rts rts pid s")
    case None
    with True c show ?thesis by (simp add: hotspot_click_def Let_def)
  next
    case (Some ks)
    obtain k s1 where ks: "ks = (k, s1)" by (cases ks)
    with Some inv have i1: "pageInv s1" using searchRoutes_pageInv by blast
    from hotspot_click_elsewhere [OF True Some [unfolded ks]] c
    have "s' = (if k = -1 then highlightPoint pid s1 else renderPanel (s1\<lparr>currentPointIndex := k\<rparr>))"
      by simp
    with i1 show ?thesis by (simp add: highlightPoint_pageInv renderPanel_pageInv update_pageInv)
  qed
qed

lemma hotspot_click_total:
  assumes "rts \<noteq> []"
  shows "\<exists>s'. hotspot_click rts pid s = Some s'"
proof (cases "findIndex (\<lambda>pt. pt_id pt = pid) (points (currentRoute s)) = -1")
  case False
  then show ?thesis by (simp add: hotspot_click_in_route)
next
  case True
  from searchRoutes_total [OF assms, of rts pid s] obtain k s1 where
    "searchRoutes rts rts pid s = Some (k, s1)" by blast
  from hotspot_click_elsewhere [OF True this] show ?thesis by blast
qed

lemma resetAll_pageInv:
  assumes inv: "pageInv s" and r: "resetAll rts s = Some s'"
  shows "pageInv s'"
proof -
  have "pageInv (unhighlightAll s)" using inv by (rule unhighlightAll_pageInv)
  then have "pageInv (setPointsVisibility True ((unhighlightAll s)\<lparr>pointsVisible := True\<rparr>))"
    by (simp add: setPointsVisibility_def update_pageInv)
  moreover from r have "showRoute rts
      (route_id (currentRoute (setPointsVisibility True ((unhighlightAll s)\<lparr>pointsVisible := True\<rparr>))))
      (setPointsVisibility True ((unhighlightAll s)\<lparr>pointsVisible := True\<rparr>)) = Some s'"
    by (simp add: resetAll_def Let_def)
  ultimately show ?thesis by (rule showRoute_pageInv)
qed

lemma step_pageInv:
  assumes inv: "pageInv s" and st: "step rts e s = Some s'"
  shows "pageInv s'"
proof (cases e)
  case (RouteChanged v)
  with st have "showRoute rts v s = Some s'" by (simp add: routeSelect_change_def)
  with inv show ?thesis by (rule showRoute_pageInv)
next
  case (PointClicked pid)
  with st have "hotspot_click rts pid s = Some s'" by simp
  with inv show ?thesis by (rule hotspot_click_pageInv)
next
  case Next
  with st have "s' = nextBtn_click s" by simp
  with inv show ?thesis by (simp add: nextBtn_click_def renderPanel_pageInv update_pageInv)
next
  case Prev
  with st have "s' = prevBtn_click s" by simp
  with inv show ?thesis by (simp add: prevBtn_click_def renderPanel_pageInv update_pageInv)
next
  case ToggleVisibility
  with st have "s' = s\<lparr>pointsVisible := \<not> pointsVisible s\<rparr>"
    by (simp add: btnTogglePoints_click_def setPointsVisibility_def)
  with inv show ?thesis by (simp add: update_pageInv)
next
  case Reset
  with st have "resetAll rts s = Some s'" by simp
  with inv show ?thesis by (rule resetAll_pageInv)
qed

lemma step_total:
  assumes "rts \<noteq> []"
  shows "\<exists>s'. step rts e s = Some s'"
proof (cases e)
  case (RouteChanged v)
  with showRoute_total [OF assms] show ?thesis by (simp add: routeSelect_change_def)
next
  case (PointClicked pid)
  with hotspot_click_total [OF assms] show ?thesis by simp
next
  case Reset
  with showRoute_total [OF assms] show ?thesis by (simp add: resetAll_def Let_def)
qed simp_all

lemma run_pageInv: "rts \<noteq> [] \<Longrightarrow> pageInv s \<Longrightarrow> \<exists>s'. run rts es s = Some s' \<and> pageInv s'"
proof (induction es arbitrary: s)
  case Nil
  then show ?case by simp
next
  case (Cons e es)
  from step_total [OF Cons.prems(1), of e s] obtain s1 where s1: "step rts e s = Some s1" by blast
  with Cons.prems(2) have "pageInv s1" using step_pageInv by blast
  from Cons.IH [OF Cons.prems(1) this] s1 show ?case by simp
qed

lemma pageInv_at_most_one:
  assumes "pageInv s"
  shows "length (filter selected (hotspots s)) \<le> 1"
proof -
  from assms have dist: "distinct (map hid (hotspots s))"
    and sel: "\<And>h. h \<in> set (hotspots s) \<Longrightarrow> selected h \<Longrightarrow> activePointId s = Some (hid h)"
    by (simp_all add: pageInv_def wellFormedPage_def exclusive_def)
  have d: "distinct (map hid (filter selected (hotspots s)))"
    using dist by (simp add: distinct_map_filter)
  show ?thesis
  proof (cases "filter selected (hotspots s)")
    case Nil
    then show ?thesis by simp
  next
    case (Cons h hs)
    show ?thesis
    proof (cases hs)
      case Nil
      with Cons show ?thesis by simp
    next
      case (Cons h' hs')
      with \<open>filter selected (hotspots s) = h # hs\<close>
      have f: "filter selected (hotspots s) = h # h' # hs'" by simp
      then have "h \<in> set (filter selected (hotspots s))" "h' \<in> set (filter selected (hotspots s))"
        by simp_all
      then have "h \<in> set (hotspots s)" "selected h" "h' \<in> set (hotspots s)" "selected h'"
        by simp_all
      then have "activePointId s = Some (hid h)" "activePointId s = Some (hid h')"
        using sel by blast+
      then have "hid h = hid h'" by simp
      with d f show ?thesis by simp
    qed
  qed
qed

subsection \<open>Clicks, paging and reset\<close>

lemma at_js_findIndex:
  assumes "\<exists>x \<in> set xs. P x"
  shows "\<exists>p. at_js xs (findIndex P xs) = Some p \<and> P p"
  using findIndex_nth [OF assms] findIndex_lt [of P xs] by (simp add: at_js_def)

lemma click_in_route:
  assumes "X \<in> pt_id ` set (points (currentRoute s))"
  shows "\<exists>s'. hotspot_click rts X s = Some s' \<and> activePointId s' = Some X \<and>
              currentRoute s' = currentRoute s \<and>
              0 \<le> currentPointIndex s' \<and>
              currentPointIndex s' < int (length (points (currentRoute s))) \<and>
              map_option pt_id (at_js (points (currentRoute s)) (currentPointIndex s')) = Some X \<and>
              (pageInv s \<longrightarrow> pageInv s')"
proof -
  define f where "f = findIndex (\<lambda>pt. pt_id pt = X) (points (currentRoute s))"
  from assms have ex: "\<exists>pt \<in> set (points (currentRoute s)). pt_id pt = X" by auto
  then have ne: "f \<noteq> -1" by (simp add: f_def findIndex_none)
  from at_js_findIndex [OF ex] obtain p where
    p: "at_js (points (currentRoute s)) f = Some p" "pt_id p = X" by (auto simp: f_def)
  have c: "hotspot_click rts X s = Some (renderPanel (s\<lparr>currentPointIndex := f\<rparr>))"
    using ne hotspot_click_in_route [of X s rts] by (simp add: f_def)
  have "activePointId (renderPanel (s\<lparr>currentPointIndex := f\<rparr>)) = Some X"
    using p by (simp add: renderPanel_keeps)
  moreover have "0 \<le> f" "f < int (length (points (currentRoute s)))"
    using findIndex_nth [OF ex] findIndex_lt [of "\<lambda>pt. pt_id pt = X" "points (currentRoute s)"]
    by (simp_all add: f_def)
  moreover have "pageInv s \<longrightarrow> pageInv (renderPanel (s\<lparr>currentPointIndex := f\<rparr>))"
    by (simp add: renderPanel_pageInv update_pageInv)
  ultimately show ?thesis using c p by (simp add: renderPanel_keeps)
qed

lemma init_pageInv:
  assumes rts: "rts \<noteq> []" and wf: "wellFormedPage hs" and unmarked: "list_all (\<lambda>h. \<not> selected h) hs"
  shows "\<exists>s0. init rts hs = Some s0 \<and> pageInv s0"
proof -
  from rts obtain r rest where r: "rts = r # rest" by (cases rts) auto
  define g where "g = \<lparr>currentRoute = r, currentPointIndex = 0, activePointId = None,
                pointsVisible = True, hotspots = hs\<rparr>"
  have g: "pageInv g"
    using wf unmarked by (simp add: pageInv_def exclusive_def g_def list_all_iff)
  from showRoute_total [OF rts, of "route_id r" g] obtain s1 where
    s1: "showRoute rts (route_id r) g = Some s1" by blast
  with g have "pageInv s1" by (rule showRoute_pageInv)
  then have "pageInv (setPointsVisibility True s1)"
    by (simp add: setPointsVisibility_def update_pageInv)
  with s1 show ?thesis by (simp add: init_def r g_def)
qed

text \<open>
  Claim C8. After a click on \<open>X\<close> and then on \<open>Y\<close>, two different points of the current
  route, the active checkpoint is \<open>Y\<close> and not \<open>X\<close>. On a well-formed page in an exclusive
  state, moreover, every run of events ends in an exclusive state in which at most one
  hotspot is marked \<^verbatim>\<open>selected\<close>, and after the two clicks every marked hotspot is the one of
  \<open>Y\<close>. The state after start-up on a well-formed page without marks is such a state, so
  this holds of every run of events from start-up.
\<close>

theorem highlight_exclusive:
  "(X \<in> pt_id ` set (points (currentRoute s)) \<and>
    Y \<in> pt_id ` set (points (currentRoute s)) \<and> X \<noteq> Y \<longrightarrow>
      (\<exists>s'. run rts [PointClicked X, PointClicked Y] s = Some s' \<and>
            activePointId s' = Some Y \<and> activePointId s' \<noteq> Some X \<and>
            (wellFormedPage (hotspots s) \<and> exclusive s \<longrightarrow>
               (\<forall>h \<in> set (hotspots s'). selected h \<longrightarrow> hid h = Y)))) \<and>
   (rts \<noteq> [] \<and> wellFormedPage (hotspots s) \<and> exclusive s \<longrightarrow>
      (\<forall>es. \<exists>s'. run rts es s = Some s' \<and> exclusive s' \<and>
                  length (filter selected (hotspots s')) \<le> 1)) \<and>
   (rts \<noteq> [] \<and> wellFormedPage hs \<and> list_all (\<lambda>h. \<not> selected h) hs \<longrightarrow>
      (\<forall>es. \<exists>s0 s'. init rts hs = Some s0 \<and> run rts es s0 = Some s' \<and> exclusive s' \<and>
                     length (filter selected (hotspots s')) \<le> 1))"
proof (intro conjI allI impI)
  assume h: "X \<in> pt_id ` set (points (currentRoute s)) \<and>
             Y \<in> pt_id ` set (points (currentRoute s)) \<and> X \<noteq> Y"
  from click_in_route [of X s rts] h obtain s1 where
    s1: "hotspot_click rts X s = Some s1" "currentRoute s1 = currentRoute s"
        "pageInv s \<longrightarrow> pageInv s1"
    by blast
  from click_in_route [of Y s1 rts] h s1 obtain s2 where
    s2: "hotspot_click rts Y s1 = Some s2" "activePointId s2 = Some Y"
        "pageInv s1 \<longrightarrow> pageInv s2"
    by auto
  have marks: "wellFormedPage (hotspots s) \<and> exclusive s \<longrightarrow>
               (\<forall>h \<in> set (hotspots s2). selected h \<longrightarrow> hid h = Y)"
  proof
    assume "wellFormedPage (hotspots s) \<and> exclusive s"
    then have "pageInv s" by (simp add: pageInv_def)
    with s1(3) s2(3) have "pageInv s2" by blast
    then have "\<forall>h \<in> set (hotspots s2). selected h \<longrightarrow> activePointId s2 = Some (hid h)"
      by (simp add: pageInv_def exclusive_def)
    with s2(2) show "\<forall>h \<in> set (hotspots s2). selected h \<longrightarrow> hid h = Y" by auto
  qed
  from s1 s2 h marks
  show "\<exists>s'. run rts [PointClicked X, PointClicked Y] s = Some s' \<and>
            activePointId s' = Some Y \<and> activePointId s' \<noteq> Some X \<and>
            (wellFormedPage (hotspots s) \<and> exclusive s \<longrightarrow>
               (\<forall>h \<in> set (hotspots s'). selected h \<longrightarrow> hid h = Y))"
    by auto
next
  fix es
  assume a: "rts \<noteq> [] \<and> wellFormedPage (hotspots s) \<and> exclusive s"
  then have inv: "pageInv s" and rts: "rts \<noteq> []" by (simp_all add: pageInv_def)
  from run_pageInv [OF rts inv, of es] obtain s' where
    s': "run rts es s = Some s'" "pageInv s'" by blast
  then show "\<exists>s'. run rts es s = Some s' \<and> exclusive s' \<and>
                 length (filter selected (hotspots s')) \<le> 1"
    using pageInv_at_most_one [of s'] by (auto simp: pageInv_def)
next
  fix es
  assume a: "rts \<noteq> [] \<and> wellFormedPage hs \<and> list_all (\<lambda>h. \<not> selected h) hs"
  then have rts: "rts \<noteq> []" by simp
  from a init_pageInv [of rts hs] obtain s0 where
    s0: "init rts hs = Some s0" "pageInv s0" by blast
  from run_pageInv [OF rts s0(2), of es] obtain s' where
    s': "run rts es s0 = Some s'" "pageInv s'" by blast
  with s0 show "\<exists>s0 s'. init rts hs = Some s0 \<and> run rts es s0 = Some s' \<and> exclusive s' \<and>
                     length (filter selected (hotspots s')) \<le> 1"
    using pageInv_at_most_one [of s'] by (auto simp: pageInv_def)
qed

text \<open>
  Claim C9. In a state whose index is within the current route, \<^verbatim>\<open>prev\<close> and \<^verbatim>\<open>next\<close> keep
  the route and leave the index within it: \<^verbatim>\<open>prev\<close> at index \<open>0\<close> and \<^verbatim>\<open>next\<close> at the last
  index change nothing at all, and otherwise the index moves by exactly one.
\<close>

theorem next_prev_in_bounds:
  assumes lo: "0 \<le> currentPointIndex s"
    and hi: "currentPointIndex s < int (length (points (currentRoute s)))"
  shows "currentPointIndex (prevBtn_click s) =
           (if currentPointIndex s = 0 then 0 else currentPointIndex s - 1) \<and>
         currentPointIndex (nextBtn_click s) =
           (if currentPointIndex s = int (length (points (currentRoute s))) - 1
            then currentPointIndex s else currentPointIndex s + 1) \<and>
         (currentPointIndex s = 0 \<longrightarrow> prevBtn_click s = s) \<and>
         (currentPointIndex s = int (length (points (currentRoute s))) - 1 \<longrightarrow> nextBtn_click s = s) \<and>
         currentRoute (prevBtn_click s) = currentRoute s \<and>
         currentRoute (nextBtn_click s) = currentRoute s \<and>
         0 \<le> currentPointIndex (prevBtn_click s) \<and>
         currentPointIndex (prevBtn_click s) < int (length (points (currentRoute s))) \<and>
         0 \<le> currentPointIndex (nextBtn_click s) \<and>
         currentPointIndex (nextBtn_click s) < int (length (points (currentRoute s)))"
  using lo hi by (auto simp: prevBtn_click_def nextBtn_click_def renderPanel_keeps)

lemma find_route:
  "r \<in> set rts \<Longrightarrow> distinct (map route_id rts) \<Longrightarrow>
   find (\<lambda>x. route_id x = route_id r) rts = Some r"
  by (induction rts) auto

text \<open>
  Claim C1, as amended. With a catalog that is not empty, \<open>resetAll\<close> returns; afterwards
  \<^verbatim>\<open>pointsVisible\<close> is true; the current route is still the current route when it is in
  the catalog and route ids are distinct; \<^verbatim>\<open>currentPointIndex\<close> is what it was, and \<open>0\<close> only
  when it was past the end of a route with points; \<^verbatim>\<open>activePointId\<close> is the id of the point
  at that index, which the re-selection highlights again, and is cleared only when the
  route has no point there.
\<close>

theorem resetAll_effect:
  assumes rts: "rts \<noteq> []"
  shows "\<exists>s'. resetAll rts s = Some s' \<and> pointsVisible s' \<and>
              (currentRoute s \<in> set rts \<and> distinct (map route_id rts) \<longrightarrow>
                 currentRoute s' = currentRoute s) \<and>
              currentPointIndex s' =
                (if points (currentRoute s') \<noteq> [] \<and>
                    int (length (points (currentRoute s'))) \<le> currentPointIndex s
                 then 0 else currentPointIndex s) \<and>
              activePointId s' =
                map_option pt_id (at_js (points (currentRoute s')) (currentPointIndex s'))"
proof -
  define s3 where "s3 = setPointsVisibility True ((unhighlightAll s)\<lparr>pointsVisible := True\<rparr>)"
  have s3: "currentRoute s3 = currentRoute s" "currentPointIndex s3 = currentPointIndex s"
    "activePointId s3 = None" "pointsVisible s3"
    by (simp_all add: s3_def setPointsVisibility_def unhighlightAll_def)
  have res: "resetAll rts s = showRoute rts (route_id (currentRoute s)) s3"
    by (simp add: resetAll_def Let_def s3_def setPointsVisibility_def unhighlightAll_def)
  define look where "look = (case find (\<lambda>r. route_id r = route_id (currentRoute s)) rts of
                               Some r \<Rightarrow> Some r | None \<Rightarrow> at_js rts 0)"
  have "look \<noteq> None"
  proof (cases rts)
    case Nil
    with rts show ?thesis by simp
  next
    case (Cons a list)
    then have "at_js rts 0 = Some a" by (simp add: at_js_def)
    then show ?thesis by (simp add: look_def split: option.splits)
  qed
  then obtain r where r: "look = Some r" by blast
  have same: "currentRoute s \<in> set rts \<and> distinct (map route_id rts) \<longrightarrow> r = currentRoute s"
    using r find_route [of "currentRoute s" rts] by (auto simp: look_def)
  show ?thesis
  proof (cases "points r = []")
    case True
    then have "resetAll rts s = Some (unhighlightAll (s3\<lparr>currentRoute := r\<rparr>))"
      using r by (simp add: res showRoute_def look_def [symmetric] Let_def)
    with True s3 same show ?thesis
      by (simp add: unhighlightAll_def at_js_def)
  next
    case False
    show ?thesis
    proof (cases "int (length (points r)) \<le> currentPointIndex s")
      case over: True
      have "resetAll rts s = Some (renderPanel (s3\<lparr>currentRoute := r, currentPointIndex := 0\<rparr>))"
        using r False over s3(2) by (simp add: res showRoute_def look_def [symmetric] Let_def)
      with False over s3 same show ?thesis
        by (simp add: renderPanel_keeps split: option.splits)
    next
      case inside: False
      have "resetAll rts s = Some (renderPanel (s3\<lparr>currentRoute := r\<rparr>))"
        using r False inside s3(2) by (simp add: res showRoute_def look_def [symmetric] Let_def)
      with False inside s3 same show ?thesis
        by (simp add: renderPanel_keeps split: option.splits)
    qed
  qed
qed

lemma routeA_len: "length (points routeA) = 7"
  by (simp add: routeA_def)

lemma routeA_at3: "map_option pt_id (at_js (points routeA) 3) = Some ''S''"
  by (simp add: routeA_def at_js_def mkPoint_def)

lemma routes_distinct: "distinct (map route_id routes)"
  by (simp add: routes_def routeA_def routeB_def)

text \<open>Claim C1 as amended, in the state reached by a click on \<^verbatim>\<open>S\<close>.\<close>

theorem resetAll_effect_witness:
  "routes \<noteq> [] \<and> currentRoute stateAtS \<in> set routes \<and> distinct (map route_id routes) \<and>
   (\<exists>s'. resetAll routes stateAtS = Some s' \<and> pointsVisible s' \<and> currentRoute s' = routeA \<and>
         currentPointIndex s' = 3 \<and> activePointId s' = Some ''S'')"
proof -
  have a: "routes \<noteq> []" by (simp add: routes_def)
  have b: "currentRoute stateAtS \<in> set routes" by (simp add: routes_def stateAtS_def)
  have c: "currentRoute stateAtS = routeA" "currentPointIndex stateAtS = 3"
    by (simp_all add: stateAtS_def)
  from resetAll_effect [OF a, of stateAtS] obtain s' where
    s': "resetAll routes stateAtS = Some s'" "pointsVisible s'"
        "currentRoute stateAtS \<in> set routes \<and> distinct (map route_id routes) \<longrightarrow>
                 currentRoute s' = currentRoute stateAtS"
        "currentPointIndex s' =
                (if points (currentRoute s') \<noteq> [] \<and>
                    int (length (points (currentRoute s'))) \<le> currentPointIndex stateAtS
                 then 0 else currentPointIndex stateAtS)"
        "activePointId s' =
                map_option pt_id (at_js (points (currentRoute s')) (currentPointIndex s'))"
    by blast
  from s'(3) b routes_distinct c have r: "currentRoute s' = routeA" by simp
  with s'(4) c have k: "currentPointIndex s' = 3" by (simp add: routeA_len)
  with s'(5) r have "activePointId s' = Some ''S''" by (simp add: routeA_at3)
  with s' r k a b routes_distinct show ?thesis by blast
qed

text \<open>The state \<open>stateAtS\<close> is reached from start-up on the sample page.\<close>

lemma findIndex_routeA_S: "findIndex (\<lambda>pt. pt_id pt = ''S'') (points routeA) = 3"
  by (simp add: routeA_def mkPoint_def)

lemma stateAtS_reachable:
  "Option.bind (init routes samplePage) (run routes [PointClicked ''S'', ToggleVisibility]) =
     Some stateAtS"
proof -
  have i: "init routes samplePage =
     Some \<lparr>currentRoute = routeA, currentPointIndex = 0, activePointId = Some ''P'',
           pointsVisible = True,
           hotspots =
        [\<lparr>hid = ''P'', selected = True, dim = False\<rparr>,
         \<lparr>hid = ''Q'', selected = False, dim = True\<rparr>,
         \<lparr>hid = ''R'', selected = False, dim = True\<rparr>,
         \<lparr>hid = ''S'', selected = False, dim = True\<rparr>,
         \<lparr>hid = ''T'', selected = False, dim = True\<rparr>,
         \<lparr>hid = ''U'', selected = False, dim = True\<rparr>,
         \<lparr>hid = ''S/P'', selected = False, dim = True\<rparr>]\<rparr>"
    by (simp add: init_def routes_def showRoute_def Let_def)
       (simp add: routeA_def mkPoint_def renderPanel_def at_js_def highlightPoint_def Let_def
          getHotspotById_def samplePage_def setPointsVisibility_def)
  show ?thesis
    by (simp add: i hotspot_click_def Let_def findIndex_routeA_S btnTogglePoints_click_def
          setPointsVisibility_def)
       (simp add: renderPanel_def routeA_def mkPoint_def at_js_def highlightPoint_def Let_def
          getHotspotById_def setPointsVisibility_def stateAtS_def)
qed

lemma resetAll_at_S: "resetAll routes stateAtS = Some (stateAtS\<lparr>pointsVisible := True\<rparr>)"
proof -
  have f: "find (\<lambda>r. route_id r = route_id routeA) routes = Some routeA"
    by (simp add: routes_def)
  have ne: "points routeA \<noteq> []" using routeA_len by auto
  have "resetAll routes stateAtS =
          Some (renderPanel
            (stateAtS\<lparr>hotspots := map (\<lambda>h. h\<lparr>selected := False, dim := False\<rparr>) (hotspots stateAtS),
                       activePointId := None, pointsVisible := True\<rparr>))"
    by (simp add: resetAll_def Let_def unhighlightAll_def setPointsVisibility_def showRoute_def)
       (simp add: stateAtS_def f routeA_len ne Let_def)
  also have "\<dots> = Some (stateAtS\<lparr>pointsVisible := True\<rparr>)"
    by (simp add: stateAtS_def renderPanel_def routeA_def mkPoint_def at_js_def highlightPoint_def
          Let_def getHotspotById_def setPointsVisibility_def)
  finally show ?thesis .
qed

text \<open>
  Claim C1 as first stated fails in that state: after \<open>resetAll\<close> the checkpoint \<^verbatim>\<open>S\<close> is
  still active and the index is still \<open>3\<close>.
\<close>

theorem resetAll_counterexample:
  "activePointId stateAtS = Some ''S'' \<and> currentPointIndex stateAtS = 3 \<and>
   map_option activePointId (resetAll routes stateAtS) = Some (Some ''S'') \<and>
   map_option currentPointIndex (resetAll routes stateAtS) = Some 3"
  by (simp add: resetAll_at_S) (simp add: stateAtS_def)

subsection \<open>The general statements at concrete inputs\<close>

lemma routeA_nonempty: "points routeA \<noteq> []"
  using routeA_len by auto

lemma routeA_distinct: "distinct (map pt_id (points routeA))"
  by (simp add: routeA_ids)

text \<open>
  Claim C3 on the first configured route: from \<^verbatim>\<open>R\<close>, a point of the route; from \<^verbatim>\<open>VOCC\<close>,
  which reaches \<^verbatim>\<open>P\<close>; from \<^verbatim>\<open>X\<close>, which reaches nothing.
\<close>

theorem buildTraversalSequence_resolve_witness:
  "points routeA \<noteq> [] \<and> distinct (map pt_id (points routeA)) \<and>
   ''R'' \<in> set (map pt_id (points routeA)) \<and>
   buildTraversalSequence timeMatrix routeA ''R'' = [''R'', ''S'', ''T'', ''U'', ''S/P''] \<and>
   hd (buildTraversalSequence timeMatrix routeA ''R'') = ''R'' \<and>
   buildTraversalSequence timeMatrix routeA ''VOCC'' = [''P'', ''Q'', ''R'', ''S'', ''T'', ''U'', ''S/P''] \<and>
   buildTraversalSequence timeMatrix routeA ''X'' = [''P'', ''Q'', ''R'', ''S'', ''T'', ''U'', ''S/P''] \<and>
   distinct (buildTraversalSequence timeMatrix routeA ''R'')"
proof -
  have m: "''R'' \<in> set (map pt_id (points routeA))" by (simp add: routeA_ids)
  from buildTraversalSequence_resolve [OF routeA_nonempty, of timeMatrix "''R''"] m
  have r: "buildTraversalSequence timeMatrix routeA ''R'' = [''R'', ''S'', ''T'', ''U'', ''S/P'']"
    "hd (buildTraversalSequence timeMatrix routeA ''R'') = ''R''"
    by (simp_all add: routeA_ids)
  from buildTraversalSequence_resolve [OF routeA_nonempty, of timeMatrix "''VOCC''"]
  have v: "buildTraversalSequence timeMatrix routeA ''VOCC'' = [''P'', ''Q'', ''R'', ''S'', ''T'', ''U'', ''S/P'']"
    by (simp add: routeA_ids getLegTime_def entry_def timeMatrix_def)
  from buildTraversalSequence_resolve [OF routeA_nonempty, of timeMatrix "''X''"]
  have x: "buildTraversalSequence timeMatrix routeA ''X'' = [''P'', ''Q'', ''R'', ''S'', ''T'', ''U'', ''S/P'']"
    by (simp add: routeA_ids getLegTime_def entry_def timeMatrix_def)
  from buildTraversalSequence_resolve [OF routeA_nonempty, of timeMatrix "''R''"] routeA_distinct
  have dr: "distinct (buildTraversalSequence timeMatrix routeA ''R'')" by blast
  from routeA_nonempty routeA_distinct m r v x dr show ?thesis by blast
qed

text \<open>
  Claim C4 on the configured matrix (a directed entry, a reverse entry only, no entry) and
  on a matrix whose two directions disagree.
\<close>

theorem getLegTime_directed_then_reverse_witness:
  "''P'' \<noteq> [] \<and> ''Q'' \<noteq> [] \<and> ''T'' \<noteq> [] \<and>
   entry timeMatrix ''P'' ''Q'' = Some 14 \<and> getLegTime timeMatrix ''P'' ''Q'' = 14 \<and>
   entry timeMatrix ''Q'' ''P'' = None \<and> getLegTime timeMatrix ''Q'' ''P'' = 14 \<and>
   getLegTime timeMatrix ''Q'' ''P'' = getLegTime timeMatrix ''P'' ''Q'' \<and>
   entry timeMatrix ''P'' ''T'' = None \<and> entry timeMatrix ''T'' ''P'' = None \<and>
   getLegTime timeMatrix ''P'' ''T'' = 0 \<and>
   entry timeMatrix ''P'' ''P'' = None \<and> getLegTime timeMatrix ''P'' ''P'' = 0 \<and>
   entry asymMatrix ''A'' ''B'' = Some 5 \<and> entry asymMatrix ''B'' ''A'' = Some 7 \<and>
   getLegTime asymMatrix ''A'' ''B'' = 5 \<and> getLegTime asymMatrix ''B'' ''A'' = 7 \<and>
   getLegTime asymMatrix [] ''A'' = 0"
proof -
  have e: "entry timeMatrix ''P'' ''Q'' = Some 14" "entry timeMatrix ''Q'' ''P'' = None"
    "entry timeMatrix ''P'' ''T'' = None" "entry timeMatrix ''T'' ''P'' = None"
    "entry timeMatrix ''P'' ''P'' = None"
    "entry asymMatrix ''A'' ''B'' = Some 5" "entry asymMatrix ''B'' ''A'' = Some 7"
    by (simp_all add: entry_def timeMatrix_def asymMatrix_def)
  have n: "''P'' \<noteq> []" "''Q'' \<noteq> []" "''T'' \<noteq> []" "''A'' \<noteq> []" "''B'' \<noteq> []" by simp_all
  from getLegTime_directed_then_reverse [of "''P''" "''Q''" timeMatrix] e n
  have 1: "getLegTime timeMatrix ''P'' ''Q'' = 14" by blast
  from getLegTime_directed_then_reverse [of "''Q''" "''P''" timeMatrix] e n
  have 2: "getLegTime timeMatrix ''Q'' ''P'' = 14" by blast
  from getLegTime_directed_then_reverse [of "''P''" "''T''" timeMatrix] e
  have 3: "getLegTime timeMatrix ''P'' ''T'' = 0" by blast
  from getLegTime_directed_then_reverse [of "''P''" "''P''" timeMatrix] e
  have 4: "getLegTime timeMatrix ''P'' ''P'' = 0" by blast
  from getLegTime_directed_then_reverse [of "''A''" "''B''" asymMatrix] e n
  have 5: "getLegTime asymMatrix ''A'' ''B'' = 5" by blast
  from getLegTime_directed_then_reverse [of "''B''" "''A''" asymMatrix] e n
  have 6: "getLegTime asymMatrix ''B'' ''A'' = 7" by blast
  from getLegTime_directed_then_reverse [of "[]" "''A''" asymMatrix]
  have 7: "getLegTime asymMatrix [] ''A'' = 0" by blast
  from e n 1 2 3 4 5 6 7 show ?thesis by simp
qed

lemma stateAtS_pageInv: "wellFormedPage (hotspots stateAtS) \<and> exclusive stateAtS"
  by (simp add: wellFormedPage_def exclusive_def stateAtS_def)

text \<open>Claim C8 in the state \<open>stateAtS\<close>: two clicks, and a run of three other events.\<close>

theorem highlight_exclusive_witness:
  "routes \<noteq> [] \<and> wellFormedPage (hotspots stateAtS) \<and> exclusive stateAtS \<and>
   ''P'' \<in> pt_id ` set (points (currentRoute stateAtS)) \<and>
   ''Q'' \<in> pt_id ` set (points (currentRoute stateAtS)) \<and> ''P'' \<noteq> ''Q'' \<and>
   (\<exists>s'. run routes [PointClicked ''P'', PointClicked ''Q''] stateAtS = Some s' \<and>
         activePointId s' = Some ''Q'' \<and> activePointId s' \<noteq> Some ''P'' \<and>
         (\<forall>h \<in> set (hotspots s'). selected h \<longrightarrow> hid h = ''Q'')) \<and>
   (\<exists>s'. run routes [Reset, Next, RouteChanged ''routeB''] stateAtS = Some s' \<and> exclusive s' \<and>
         length (filter selected (hotspots s')) \<le> 1) \<and>
   wellFormedPage samplePage \<and> list_all (\<lambda>h. \<not> selected h) samplePage \<and>
   (\<exists>s0 s'. init routes samplePage = Some s0 \<and>
            run routes [PointClicked ''S'', ToggleVisibility] s0 = Some s' \<and> exclusive s' \<and>
            length (filter selected (hotspots s')) \<le> 1)"
proof -
  have a: "routes \<noteq> []" by (simp add: routes_def)
  have b: "wellFormedPage (hotspots stateAtS)" "exclusive stateAtS"
    using stateAtS_pageInv by simp_all
  have c: "''P'' \<in> pt_id ` set (points (currentRoute stateAtS))"
    "''Q'' \<in> pt_id ` set (points (currentRoute stateAtS))"
    by (simp_all add: stateAtS_def routeA_def mkPoint_def)
  have d: "''P'' \<noteq> ''Q''" by simp
  have e: "wellFormedPage samplePage" "list_all (\<lambda>h. \<not> selected h) samplePage"
    by (simp_all add: wellFormedPage_def samplePage_def)
  from highlight_exclusive [of "''P''" stateAtS "''Q''" routes samplePage] b c d
  have "\<exists>s'. run routes [PointClicked ''P'', PointClicked ''Q''] stateAtS = Some s' \<and>
         activePointId s' = Some ''Q'' \<and> activePointId s' \<noteq> Some ''P'' \<and>
         (\<forall>h \<in> set (hotspots s'). selected h \<longrightarrow> hid h = ''Q'')"
    by blast
  moreover from highlight_exclusive [of "''P''" stateAtS "''Q''" routes samplePage] a b
  have "\<exists>s'. run routes [Reset, Next, RouteChanged ''routeB''] stateAtS = Some s' \<and>
         exclusive s' \<and> length (filter selected (hotspots s')) \<le> 1"
    by blast
  moreover from highlight_exclusive [of "''P''" stateAtS "''Q''" routes samplePage] a e
  have "\<exists>s0 s'. init routes samplePage = Some s0 \<and>
            run routes [PointClicked ''S'', ToggleVisibility] s0 = Some s' \<and> exclusive s' \<and>
            length (filter selected (hotspots s')) \<le> 1"
    by blast
  ultimately show ?thesis using a b c d e by blast
qed

text \<open>Claim C9 in the state \<open>stateAtS\<close> and at both ends of its route.\<close>

theorem next_prev_in_bounds_witness:
  "0 \<le> currentPointIndex stateAtS \<and>
   currentPointIndex stateAtS < int (length (points (currentRoute stateAtS))) \<and>
   currentPointIndex (prevBtn_click stateAtS) = 2 \<and>
   currentPointIndex (nextBtn_click stateAtS) = 4 \<and>
   currentPointIndex (stateAtS\<lparr>currentPointIndex := 0\<rparr>) = 0 \<and>
   prevBtn_click (stateAtS\<lparr>currentPointIndex := 0\<rparr>) = stateAtS\<lparr>currentPointIndex := 0\<rparr> \<and>
   currentPointIndex (stateAtS\<lparr>currentPointIndex := 6\<rparr>) =
     int (length (points (currentRoute (stateAtS\<lparr>currentPointIndex := 6\<rparr>)))) - 1 \<and>
   nextBtn_click (stateAtS\<lparr>currentPointIndex := 6\<rparr>) = stateAtS\<lparr>currentPointIndex := 6\<rparr>"
proof -
  have i: "currentPointIndex stateAtS = 3" "currentRoute stateAtS = routeA"
    by (simp_all add: stateAtS_def)
  have a: "0 \<le> currentPointIndex stateAtS"
    "currentPointIndex stateAtS < int (length (points (currentRoute stateAtS)))"
    by (simp_all add: i routeA_len)
  have b: "0 \<le> currentPointIndex (stateAtS\<lparr>currentPointIndex := 0\<rparr>)"
    "currentPointIndex (stateAtS\<lparr>currentPointIndex := 0\<rparr>)
       < int (length (points (currentRoute (stateAtS\<lparr>currentPointIndex := 0\<rparr>))))"
    by (simp_all add: i routeA_len)
  have c: "0 \<le> currentPointIndex (stateAtS\<lparr>currentPointIndex := 6\<rparr>)"
    "currentPointIndex (stateAtS\<lparr>currentPointIndex := 6\<rparr>)
       < int (length (points (currentRoute (stateAtS\<lparr>currentPointIndex := 6\<rparr>))))"
    by (simp_all add: i routeA_len)
  from next_prev_in_bounds [OF a]
  have 1: "currentPointIndex (prevBtn_click stateAtS) = 2"
    "currentPointIndex (nextBtn_click stateAtS) = 4"
    by (simp_all add: i routeA_len)
  from next_prev_in_bounds [OF b]
  have 2: "prevBtn_click (stateAtS\<lparr>currentPointIndex := 0\<rparr>) = stateAtS\<lparr>currentPointIndex := 0\<rparr>"
    by simp
  from next_prev_in_bounds [OF c]
  have 3: "nextBtn_click (stateAtS\<lparr>currentPointIndex := 6\<rparr>) = stateAtS\<lparr>currentPointIndex := 6\<rparr>"
    by (simp add: i routeA_len)
  from a 1 2 3 show ?thesis by (simp add: i routeA_len)
qed

end
